theory Spec2Isabelle
  imports Complex_Main
begin

section \<open>Readiness-gated batch ingestion: setup_collection.py and weaviate_server.py\<close>

text \<open>
  The two scripts talk to three collaborators that are not part of the repository: the
  HTTP health endpoint and the wall clock, the remote collection service, and the dataset
  file. Each of them is an explicit argument of the model: \<open>net\<close> gives the outcome and
  the duration of the i-th health request, a \<open>service\<close> record says which remote calls
  fail and what the service does with each submitted object, and a \<open>world\<close> record holds
  everything the scripts can change (the remote collections, the printed lines, the
  connection handles, the batch traffic).
\<close>

subsection \<open>Exceptions, results, printed lines\<close>

datatype exn =
    SystemExit nat
  | ConnectionError
  | SchemaError
  | FileNotFoundError
  | DataSourceError
  | LoadError
  | NotReadyError

text \<open>\<open>except Exception\<close> catches everything but \<open>SystemExit\<close>, which derives from
  \<open>BaseException\<close>.\<close>

fun is_Exception :: "exn \<Rightarrow> bool" where
  "is_Exception (SystemExit n) = False"
| "is_Exception e = True"

datatype 'a result = Ok 'a | Raised exn

text \<open>One constructor per \<open>print\<close> call of the sources, with the values it interpolates.\<close>

datatype msg =
    Ready
  | Waiting
  | AlreadyExists
  | Creating
  | Created
  | LoadingData
  | Found nat
  | DataNotFound
  | DataDirHint
  | Inserting
  | Progress nat nat
  | Loaded nat
  | InsertError exn
  | Banner
  | Rule
  | NotReady
  | Connected
  | SetupCompleted
  | RunNotebook
  | SetupFailed
  | ConnectError exn
  | ConnectHint
  | ConnectedDocker
  | ConnectFailed exn
  | DockerHint

subsection \<open>wait_for_weaviate (both files; they differ in the wording of the prints only)\<close>

datatype response = Status nat | RequestException

record attempt =
  outcome :: response
  duration :: real

record probe =
  ready :: bool
  elapsed :: real
  attempts :: nat
  naps :: nat
  said :: "msg list"

text \<open>\<open>requests.get(..., timeout=5)\<close> and \<open>time.sleep(2)\<close>, in seconds.\<close>

definition request_timeout :: real where
  "request_timeout = 5"

definition sleep_interval :: real where
  "sleep_interval = 2"

text \<open>
  \<open>elapsed p\<close> is \<open>time.time() - start_time\<close>. Only the health request and the sleep take
  time: a request takes the time \<open>net\<close> says (never less than none), the sleep exactly
  \<open>sleep_interval\<close>. \<open>attempts\<close> counts the requests issued and \<open>naps\<close> the sleeps.
\<close>

function wait_loop :: "(nat \<Rightarrow> attempt) \<Rightarrow> real \<Rightarrow> probe \<Rightarrow> probe" where
  "wait_loop net timeout p =
     (if elapsed p < timeout then
        (if outcome (net (attempts p)) = Status 200
         then p\<lparr>ready := True,
                elapsed := elapsed p + max 0 (duration (net (attempts p))),
                attempts := Suc (attempts p),
                said := said p @ [Ready]\<rparr>
         else wait_loop net timeout
                (p\<lparr>elapsed := elapsed p + max 0 (duration (net (attempts p))) + sleep_interval,
                   attempts := Suc (attempts p),
                   naps := Suc (naps p),
                   said := said p @ [Waiting]\<rparr>))
      else p\<lparr>ready := False\<rparr>)"
  by pat_completeness auto
termination
proof (relation "measure (\<lambda>(net, timeout, p). nat \<lceil>(timeout - elapsed p) / 2\<rceil>)")
  show "wf (measure (\<lambda>(net, timeout, p). nat \<lceil>(timeout - elapsed p) / 2\<rceil>))"
    by simp
next
  fix net :: "nat \<Rightarrow> attempt" and timeout :: real and p :: probe
  assume running: "elapsed p < timeout"
  let ?d = "max 0 (duration (net (attempts p)))"
  have "\<lceil>(timeout - (elapsed p + ?d + 2)) / 2\<rceil> \<le> \<lceil>(timeout - elapsed p) / 2 - 1\<rceil>"
    by (rule ceiling_mono) (simp add: field_simps)
  also have "\<dots> = \<lceil>(timeout - elapsed p) / 2\<rceil> - 1"
    by simp
  finally have less: "\<lceil>(timeout - (elapsed p + ?d + 2)) / 2\<rceil> < \<lceil>(timeout - elapsed p) / 2\<rceil>"
    by simp
  have pos: "0 < \<lceil>(timeout - elapsed p) / 2\<rceil>"
    using running by simp
  show "((net, timeout,
          p\<lparr>elapsed := elapsed p + ?d + sleep_interval,
            attempts := Suc (attempts p), naps := Suc (naps p), said := said p @ [Waiting]\<rparr>),
         (net, timeout, p)) \<in> measure (\<lambda>(net, timeout, p). nat \<lceil>(timeout - elapsed p) / 2\<rceil>)"
    using less pos by (simp add: sleep_interval_def)
qed

declare wait_loop.simps [simp del]

definition wait_for_weaviate :: "(nat \<Rightarrow> attempt) \<Rightarrow> real \<Rightarrow> probe" where
  "wait_for_weaviate net timeout =
     wait_loop net timeout \<lparr>ready = False, elapsed = 0, attempts = 0, naps = 0, said = []\<rparr>"

text \<open>A service that is down: every health request runs into the request timeout.\<close>

definition unreachable :: "nat \<Rightarrow> attempt" where
  "unreachable i = \<lparr>outcome = RequestException, duration = request_timeout\<rparr>"

text \<open>A service that answers 503 twice, one second each, and then 200.\<close>

definition warming_up :: "nat \<Rightarrow> attempt" where
  "warming_up i = \<lparr>outcome = (if i < 2 then Status 503 else Status 200), duration = 1\<rparr>"

subsection \<open>The remote collections\<close>

datatype pyval = VStr string | VInt int | VNone

type_synonym item = "string \<rightharpoonup> pyval"

type_synonym data_object = "string \<rightharpoonup> pyval"

datatype data_type = DataType_TEXT | DataType_INT

datatype vectorizer = Text2vec_transformers bool

datatype vector_index = Hnsw

record collection =
  cname :: string
  properties :: "(string \<times> data_type) list"
  vectorizer_config :: vectorizer
  vector_index_config :: vector_index
  objects :: "data_object list"

text \<open>
  What the service does with one \<open>add_object\<close>: it stores the object, it rejects it
  without telling the caller (the batch context records the failure and goes on), or the
  call raises.
\<close>

datatype add_outcome = Stored | Rejected | Raises

datatype source = Missing | Unreadable | Data "item list"

record service =
  health :: "nat \<Rightarrow> attempt"
  connect_fails :: bool
  exists_fails :: bool
  delete_fails :: bool
  create_fails :: bool
  dataset :: source
  add_result :: "nat \<Rightarrow> add_outcome"
  exit_fails :: bool
  flushed_on_error :: nat

record world =
  store :: "collection list"
  out :: "msg list"
  connects :: nat
  closes :: nat
  sessions :: nat
  sent :: "data_object list"

definition print :: "msg list \<Rightarrow> world \<Rightarrow> world" where
  "print ms w = w\<lparr>out := out w @ ms\<rparr>"

text \<open>
  The remote collection API the scripts consume: \<open>exists\<close>, \<open>delete\<close> and \<open>create\<close> on
  the list of collections the service holds. \<open>create\<close> refuses a name that is taken.
\<close>

definition exists_op :: "string \<Rightarrow> collection list \<Rightarrow> bool" where
  "exists_op n s = list_ex (\<lambda>c. cname c = n) s"

definition delete_op :: "string \<Rightarrow> collection list \<Rightarrow> collection list" where
  "delete_op n s = filter (\<lambda>c. cname c \<noteq> n) s"

definition create_op :: "collection \<Rightarrow> collection list \<Rightarrow> collection list option" where
  "create_op c s = (if exists_op (cname c) s then None else Some (s @ [c]))"

text \<open>A handle is the collection's name; it resolves to the first collection so named.\<close>

fun add_to :: "string \<Rightarrow> data_object list \<Rightarrow> collection list \<Rightarrow> collection list" where
  "add_to n objs [] = []"
| "add_to n objs (c # cs) =
     (if cname c = n then c\<lparr>objects := objects c @ objs\<rparr> # cs else c # add_to n objs cs)"

definition object_count :: "string \<Rightarrow> collection list \<Rightarrow> nat" where
  "object_count n s =
     (case find (\<lambda>c. cname c = n) s of None \<Rightarrow> 0 | Some c \<Rightarrow> length (objects c))"

definition named :: "string \<Rightarrow> collection list \<Rightarrow> collection list" where
  "named n s = filter (\<lambda>c. cname c = n) s"

subsection \<open>create_bbc_collection\<close>

definition bbc_properties :: "(string \<times> data_type) list" where
  "bbc_properties =
     [(''article_content'', DataType_TEXT), (''chunk'', DataType_TEXT), (''chunk_index'', DataType_INT),
      (''description'', DataType_TEXT), (''link'', DataType_TEXT), (''pubDate'', DataType_TEXT), (''title'', DataType_TEXT)]"

definition bbc_collection :: collection where
  "bbc_collection =
     \<lparr>cname = ''bbc_collection'', properties = bbc_properties,
      vectorizer_config = Text2vec_transformers False, vector_index_config = Hnsw,
      objects = []\<rparr>"

definition create_bbc_collection :: "service \<Rightarrow> world \<Rightarrow> string result \<times> world" where
  "create_bbc_collection sv w =
     (if exists_fails sv then (Raised SchemaError, w)
      else if exists_op ''bbc_collection'' (store w) \<and> delete_fails sv
      then (Raised SchemaError, print [AlreadyExists] w)
      else
        (let w1 = (if exists_op ''bbc_collection'' (store w)
                   then (print [AlreadyExists] w)
                          \<lparr>store := delete_op ''bbc_collection'' (store w)\<rparr>
                   else w);
             w2 = print [Creating] w1
         in if create_fails sv then (Raised SchemaError, w2)
            else (case create_op bbc_collection (store w2) of
                    None \<Rightarrow> (Raised SchemaError, w2)
                  | Some s \<Rightarrow> (Ok ''bbc_collection'', print [Created] (w2\<lparr>store := s\<rparr>)))))"

subsection \<open>load_data_to_collection\<close>

definition dict_get :: "item \<Rightarrow> string \<Rightarrow> pyval \<Rightarrow> pyval" where
  "dict_get item k d = (case item k of None \<Rightarrow> d | Some v \<Rightarrow> v)"

definition data_object_of :: "item \<Rightarrow> data_object" where
  "data_object_of item =
     [''article_content'' \<mapsto> dict_get item ''article_content'' (VStr ''''),
      ''chunk'' \<mapsto> dict_get item ''chunk'' (VStr ''''),
      ''chunk_index'' \<mapsto> dict_get item ''chunk_index'' (VInt 0),
      ''description'' \<mapsto> dict_get item ''description'' (VStr ''''),
      ''link'' \<mapsto> dict_get item ''link'' (VStr ''''),
      ''pubDate'' \<mapsto> dict_get item ''pubDate'' (VStr ''''),
      ''title'' \<mapsto> dict_get item ''title'' (VStr '''')]"

definition text_fields :: "string list" where
  "text_fields = [''article_content'', ''chunk'', ''description'', ''link'', ''pubDate'', ''title'']"

text \<open>
  The batch session: \<open>submitted\<close> are the objects handed to \<open>add_object\<close> in call order
  (the call that raises included), \<open>accepted\<close> the ones the service stored, \<open>reports\<close>
  the progress lines printed inside the loop.
\<close>

record batch =
  raised :: bool
  submitted :: "data_object list"
  accepted :: "data_object list"
  reports :: "msg list"

definition report :: "nat \<Rightarrow> nat \<Rightarrow> batch \<Rightarrow> batch" where
  "report len i b =
     (if (i + 1) mod 100 = 0 then b\<lparr>reports := reports b @ [Progress (i + 1) len]\<rparr> else b)"

fun batch_loop :: "(nat \<Rightarrow> add_outcome) \<Rightarrow> nat \<Rightarrow> nat \<Rightarrow> data_object list \<Rightarrow> batch \<Rightarrow> batch" where
  "batch_loop svc len i [] b = b"
| "batch_loop svc len i (d # ds) b =
     (case svc i of
        Raises \<Rightarrow> b\<lparr>raised := True, submitted := submitted b @ [d]\<rparr>
      | Rejected \<Rightarrow>
          batch_loop svc len (Suc i) ds (report len i (b\<lparr>submitted := submitted b @ [d]\<rparr>))
      | Stored \<Rightarrow>
          batch_loop svc len (Suc i) ds
            (report len i (b\<lparr>submitted := submitted b @ [d], accepted := accepted b @ [d]\<rparr>)))"

definition load_data_to_collection :: "service \<Rightarrow> string \<Rightarrow> world \<Rightarrow> bool result \<times> world" where
  "load_data_to_collection sv coll w =
     (case dataset sv of
        Missing \<Rightarrow> (Ok False, print [LoadingData, DataNotFound, DataDirHint] w)
      | Unreadable \<Rightarrow> (Raised DataSourceError, print [LoadingData] w)
      | Data bbc_data \<Rightarrow>
          (let w1 = print [LoadingData, Found (length bbc_data), Inserting] w;
               data_objects = map data_object_of bbc_data;
               b = batch_loop (add_result sv) (length data_objects) 0 data_objects
                     \<lparr>raised = False, submitted = [], accepted = [], reports = []\<rparr>;
               w2 = w1\<lparr>sessions := Suc (sessions w1), sent := sent w1 @ submitted b,
                       out := out w1 @ reports b\<rparr>
           in if raised b \<or> exit_fails sv
              then (Ok False,
                    print [InsertError LoadError]
                      (w2\<lparr>store := add_to coll (take (flushed_on_error sv) (accepted b)) (store w2)\<rparr>))
              else (Ok True,
                    print [Loaded (length data_objects)]
                      (w2\<lparr>store := add_to coll (accepted b) (store w2)\<rparr>))))"

text \<open>
  Three functions to speak about a run of the batch loop: the number of \<open>add_object\<close>
  calls that returned before the first one that raised, the objects the service stored
  among them, and the multiples of 100 among the next \<open>n\<close> counts after \<open>i\<close>.
\<close>

fun returned :: "(nat \<Rightarrow> add_outcome) \<Rightarrow> nat \<Rightarrow> data_object list \<Rightarrow> nat" where
  "returned svc i [] = 0"
| "returned svc i (d # ds) = (if svc i = Raises then 0 else Suc (returned svc (Suc i) ds))"

fun stored :: "(nat \<Rightarrow> add_outcome) \<Rightarrow> nat \<Rightarrow> data_object list \<Rightarrow> data_object list" where
  "stored svc i [] = []"
| "stored svc i (d # ds) =
     (case svc i of
        Raises \<Rightarrow> []
      | Rejected \<Rightarrow> stored svc (Suc i) ds
      | Stored \<Rightarrow> d # stored svc (Suc i) ds)"

definition hundreds :: "nat \<Rightarrow> nat \<Rightarrow> nat list" where
  "hundreds i n = filter (\<lambda>k. k mod 100 = 0) [Suc i ..< Suc (i + n)]"

subsection \<open>main (setup_collection.py)\<close>

definition connect_to_local :: "service \<Rightarrow> world \<Rightarrow> unit result \<times> world" where
  "connect_to_local sv w =
     (if connect_fails sv then (Raised ConnectionError, w)
      else (Ok (), w\<lparr>connects := Suc (connects w)\<rparr>))"

definition close :: "world \<Rightarrow> world" where
  "close w = w\<lparr>closes := Suc (closes w)\<rparr>"

text \<open>The \<open>try\<close> block. The boolean says whether \<open>client\<close> was bound when the block was left.\<close>

definition main_try :: "service \<Rightarrow> world \<Rightarrow> unit result \<times> bool \<times> world" where
  "main_try sv w =
     (case connect_to_local sv w of
        (Raised e, w1) \<Rightarrow> (Raised e, False, w1)
      | (Ok u, w1) \<Rightarrow>
          (case create_bbc_collection sv (print [Connected] w1) of
             (Raised e, w2) \<Rightarrow> (Raised e, True, w2)
           | (Ok coll, w2) \<Rightarrow>
               (case load_data_to_collection sv coll w2 of
                  (Raised e, w3) \<Rightarrow> (Raised e, True, w3)
                | (Ok loaded, w3) \<Rightarrow>
                    (if loaded then (Ok (), True, print [SetupCompleted, RunNotebook] w3)
                     else (Raised (SystemExit 1), True, print [SetupFailed] w3)))))"

text \<open>\<open>except Exception as e\<close>: print two lines and \<open>sys.exit(1)\<close>.\<close>

definition main_except :: "unit result \<times> bool \<times> world \<Rightarrow> unit result \<times> bool \<times> world" where
  "main_except t =
     (case t of
        (Raised e, bound, w) \<Rightarrow>
          (if is_Exception e
           then (Raised (SystemExit 1), bound, print [ConnectError e, ConnectHint] w)
           else (Raised e, bound, w))
      | (Ok u, bound, w) \<Rightarrow> (Ok u, bound, w))"

text \<open>\<open>finally: if 'client' in locals(): client.close()\<close>.\<close>

definition main_finally :: "unit result \<times> bool \<times> world \<Rightarrow> unit result \<times> world" where
  "main_finally t = (case t of (r, bound, w) \<Rightarrow> (r, if bound then close w else w))"

text \<open>\<open>wait_for_weaviate()\<close> is called with its defaults: the timeout is 60 seconds.\<close>

definition main :: "service \<Rightarrow> world \<Rightarrow> unit result \<times> world" where
  "main sv w =
     (let p = wait_for_weaviate (health sv) 60;
          w1 = print (said p) (print [Banner, Rule] w)
      in if \<not> ready p then (Raised (SystemExit 1), print [NotReady] w1)
         else main_finally (main_except (main_try sv w1)))"

text \<open>The exit status of the interpreter: 0 when the script runs to its end, the argument
  of \<open>sys.exit\<close>, and 1 for an exception nobody caught.\<close>

fun exit_code :: "unit result \<Rightarrow> nat" where
  "exit_code (Ok u) = 0"
| "exit_code (Raised (SystemExit n)) = n"
| "exit_code (Raised e) = 1"

subsection \<open>The module body of weaviate_server.py\<close>

definition weaviate_server :: "service \<Rightarrow> world \<Rightarrow> unit result \<times> world" where
  "weaviate_server sv w =
     (let p = wait_for_weaviate (health sv) 60;
          w1 = print (said p) w
      in case (if ready p
               then (case connect_to_local sv w1 of
                       (Raised e, w2) \<Rightarrow> (Raised e, w2)
                     | (Ok u, w2) \<Rightarrow> (Ok u, print [ConnectedDocker] w2))
               else (Raised NotReadyError, w1)) of
           (Raised e, w3) \<Rightarrow>
             (if is_Exception e then (Raised e, print [ConnectFailed e, DockerHint] w3)
              else (Raised e, w3))
         | (Ok u, w3) \<Rightarrow> (Ok u, w3))"

subsection \<open>suppress_subprocess_output (weaviate_server.py)\<close>

datatype stream = Inherit | Pipe | DEVNULL

record popen_kwargs =
  stdout :: stream
  stderr :: stream

text \<open>The function bound to \<open>subprocess.Popen\<close>: the library's own, or a \<open>patched_popen\<close>
  closure over the function it replaced.\<close>

datatype popen_fn = Original | Patched popen_fn

text \<open>The keyword arguments with which the library's \<open>Popen\<close> is reached in the end.\<close>

fun call_popen :: "popen_fn \<Rightarrow> popen_kwargs \<Rightarrow> popen_kwargs" where
  "call_popen Original kw = kw"
| "call_popen (Patched original_popen) kw =
     call_popen original_popen (kw\<lparr>stdout := DEVNULL, stderr := DEVNULL\<rparr>)"

text \<open>The process: the global binding and the subprocesses started so far.\<close>

record process =
  popen :: popen_fn
  spawned :: "popen_kwargs list"

definition try_finally ::
  "(process \<Rightarrow> 'a result \<times> process) \<Rightarrow> (process \<Rightarrow> process) \<Rightarrow> process \<Rightarrow> 'a result \<times> process" where
  "try_finally body fin s = (case body s of (r, s') \<Rightarrow> (r, fin s'))"

text \<open>The body of the \<open>with\<close> block is any state transformer: it may start subprocesses,
  rebind \<open>subprocess.Popen\<close> itself, return or raise.\<close>

definition suppress_subprocess_output ::
  "(process \<Rightarrow> 'a result \<times> process) \<Rightarrow> process \<Rightarrow> 'a result \<times> process" where
  "suppress_subprocess_output body s =
     (let original_popen = popen s
      in try_finally (\<lambda>s0. body (s0\<lparr>popen := Patched original_popen\<rparr>))
           (\<lambda>s1. s1\<lparr>popen := original_popen\<rparr>) s)"

definition run :: "popen_kwargs \<Rightarrow> process \<Rightarrow> unit result \<times> process" where
  "run kw s = (Ok (), s\<lparr>spawned := spawned s @ [call_popen (popen s) kw]\<rparr>)"

definition run_then_raise :: "popen_kwargs \<Rightarrow> process \<Rightarrow> unit result \<times> process" where
  "run_then_raise kw s =
     (Raised LoadError, s\<lparr>spawned := spawned s @ [call_popen (popen s) kw]\<rparr>)"

subsection \<open>Concrete services and worlds, for the examples\<close>

definition healthy :: service where
  "healthy =
     \<lparr>health = warming_up, connect_fails = False, exists_fails = False, delete_fails = False,
      create_fails = False,
      dataset = Data [[''title'' \<mapsto> VStr ''a''], Map.empty],
      add_result = (\<lambda>i. Stored), exit_fails = False, flushed_on_error = 0\<rparr>"

definition old_collection :: collection where
  "old_collection =
     \<lparr>cname = ''bbc_collection'', properties = [(''headline'', DataType_TEXT)],
      vectorizer_config = Text2vec_transformers True, vector_index_config = Hnsw,
      objects = [[''headline'' \<mapsto> VStr ''x'']]\<rparr>"

definition memo :: collection where
  "memo =
     \<lparr>cname = ''notes'', properties = [(''body'', DataType_TEXT)],
      vectorizer_config = Text2vec_transformers False, vector_index_config = Hnsw,
      objects = []\<rparr>"

definition fresh :: world where
  "fresh = \<lparr>store = [], out = [], connects = 0, closes = 0, sessions = 0, sent = []\<rparr>"

definition used :: world where
  "used = fresh\<lparr>store := [old_collection, memo]\<rparr>"

text \<open>A service that rejects the first object of a batch and stores the others.\<close>

definition picky :: service where
  "picky = healthy\<lparr>add_result := (\<lambda>i. if i = 0 then Rejected else Stored)\<rparr>"

definition bulk :: service where
  "bulk = healthy\<lparr>dataset := Data (replicate 250 Map.empty)\<rparr>"

text \<open>The store as \<open>create_bbc_collection\<close> leaves it: the new, empty collection.\<close>

definition prepared :: world where
  "prepared = fresh\<lparr>store := [memo, bbc_collection]\<rparr>"

section \<open>The readiness probe\<close>

subsection \<open>One unfolding of the loop\<close>

lemma wait_loop_stop:
  "\<not> elapsed p < timeout \<Longrightarrow> wait_loop net timeout p = p\<lparr>ready := False\<rparr>"
  by (subst wait_loop.simps) simp

lemma wait_loop_ready:
  "elapsed p < timeout \<Longrightarrow> outcome (net (attempts p)) = Status 200 \<Longrightarrow>
   wait_loop net timeout p =
     p\<lparr>ready := True,
       elapsed := elapsed p + max 0 (duration (net (attempts p))),
       attempts := Suc (attempts p),
       said := said p @ [Ready]\<rparr>"
  by (subst wait_loop.simps) simp

lemma wait_loop_retry:
  "elapsed p < timeout \<Longrightarrow> outcome (net (attempts p)) \<noteq> Status 200 \<Longrightarrow>
   wait_loop net timeout p =
     wait_loop net timeout
       (p\<lparr>elapsed := elapsed p + max 0 (duration (net (attempts p))) + sleep_interval,
          attempts := Suc (attempts p),
          naps := Suc (naps p),
          said := said p @ [Waiting]\<rparr>)"
  by (subst wait_loop.simps) simp

subsection \<open>Bounds on the time and on the requests\<close>

lemma wait_loop_ready_bound:
  "\<forall>i. duration (net i) \<le> request_timeout \<Longrightarrow> ready (wait_loop net timeout p) \<Longrightarrow>
   elapsed (wait_loop net timeout p) < timeout + request_timeout"
proof (induction net timeout p rule: wait_loop.induct)
  case (1 net timeout p)
  show ?case
  proof (cases "elapsed p < timeout")
    case False
    with "1.prems" show ?thesis by (simp add: wait_loop_stop)
  next
    case running: True
    show ?thesis
    proof (cases "outcome (net (attempts p)) = Status 200")
      case True
      have "max 0 (duration (net (attempts p))) \<le> request_timeout"
        using "1.prems"(1) by (simp add: request_timeout_def)
      moreover have "elapsed (wait_loop net timeout p) = elapsed p + max 0 (duration (net (attempts p)))"
        using running True by (simp add: wait_loop_ready)
      ultimately show ?thesis using running by linarith
    next
      case False
      with running "1.IH" "1.prems" show ?thesis by (simp add: wait_loop_retry)
    qed
  qed
qed

lemma wait_loop_unready_bound:
  "\<not> ready (wait_loop net timeout p) \<Longrightarrow> timeout \<le> elapsed (wait_loop net timeout p)"
proof (induction net timeout p rule: wait_loop.induct)
  case (1 net timeout p)
  show ?case
  proof (cases "elapsed p < timeout")
    case False
    then show ?thesis by (simp add: wait_loop_stop)
  next
    case running: True
    show ?thesis
    proof (cases "outcome (net (attempts p)) = Status 200")
      case True
      with running "1.prems" show ?thesis by (simp add: wait_loop_ready)
    next
      case False
      with running "1.IH" "1.prems" show ?thesis by (simp add: wait_loop_retry)
    qed
  qed
qed

lemma wait_loop_total_bound:
  "\<forall>i. duration (net i) \<le> request_timeout \<Longrightarrow>
   elapsed p < timeout + request_timeout + sleep_interval \<Longrightarrow>
   elapsed (wait_loop net timeout p) < timeout + request_timeout + sleep_interval"
proof (induction net timeout p rule: wait_loop.induct)
  case (1 net timeout p)
  have d: "max 0 (duration (net (attempts p))) \<le> request_timeout"
    using "1.prems"(1) by (simp add: request_timeout_def)
  show ?case
  proof (cases "elapsed p < timeout")
    case False
    with "1.prems" show ?thesis by (simp add: wait_loop_stop)
  next
    case running: True
    show ?thesis
    proof (cases "outcome (net (attempts p)) = Status 200")
      case True
      then have "elapsed (wait_loop net timeout p) = elapsed p + max 0 (duration (net (attempts p)))"
        using running by (simp add: wait_loop_ready)
      with running d show ?thesis unfolding sleep_interval_def by linarith
    next
      case False
      have "elapsed p + max 0 (duration (net (attempts p))) + sleep_interval
              < timeout + request_timeout + sleep_interval"
        using running d by linarith
      with running False "1.IH" "1.prems"(1) show ?thesis by (simp add: wait_loop_retry)
    qed
  qed
qed

lemma wait_loop_elapsed_mono: "elapsed p \<le> elapsed (wait_loop net timeout p)"
proof (induction net timeout p rule: wait_loop.induct)
  case (1 net timeout p)
  show ?case
  proof (cases "elapsed p < timeout")
    case False
    then show ?thesis by (simp add: wait_loop_stop)
  next
    case running: True
    show ?thesis
    proof (cases "outcome (net (attempts p)) = Status 200")
      case True
      with running show ?thesis by (simp add: wait_loop_ready)
    next
      case False
      with running "1.IH" show ?thesis by (simp add: wait_loop_retry sleep_interval_def)
    qed
  qed
qed

lemma wait_loop_attempts:
  "attempts p \<le> attempts (wait_loop net timeout p) \<and>
   (ready (wait_loop net timeout p) \<longrightarrow>
      attempts p < attempts (wait_loop net timeout p) \<and>
      outcome (net (attempts (wait_loop net timeout p) - 1)) = Status 200) \<and>
   (\<forall>k. attempts p \<le> k \<and> Suc k < attempts (wait_loop net timeout p) \<longrightarrow> outcome (net k) \<noteq> Status 200) \<and>
   (\<not> ready (wait_loop net timeout p) \<longrightarrow>
      (\<forall>k. attempts p \<le> k \<and> k < attempts (wait_loop net timeout p) \<longrightarrow> outcome (net k) \<noteq> Status 200))"
proof (induction net timeout p rule: wait_loop.induct)
  case (1 net timeout p)
  show ?case
  proof (cases "elapsed p < timeout")
    case False
    then show ?thesis by (auto simp: wait_loop_stop)
  next
    case running: True
    show ?thesis
    proof (cases "outcome (net (attempts p)) = Status 200")
      case True
      with running show ?thesis by (auto simp: wait_loop_ready)
    next
      case False
      let ?q = "p\<lparr>elapsed := elapsed p + max 0 (duration (net (attempts p))) + sleep_interval,
                   attempts := Suc (attempts p), naps := Suc (naps p), said := said p @ [Waiting]\<rparr>"
      have eq: "wait_loop net timeout p = wait_loop net timeout ?q"
        using running False by (rule wait_loop_retry)
      have ih: "attempts ?q \<le> attempts (wait_loop net timeout ?q) \<and>
   (ready (wait_loop net timeout ?q) \<longrightarrow>
      attempts ?q < attempts (wait_loop net timeout ?q) \<and>
      outcome (net (attempts (wait_loop net timeout ?q) - 1)) = Status 200) \<and>
   (\<forall>k. attempts ?q \<le> k \<and> Suc k < attempts (wait_loop net timeout ?q) \<longrightarrow> outcome (net k) \<noteq> Status 200) \<and>
   (\<not> ready (wait_loop net timeout ?q) \<longrightarrow>
      (\<forall>k. attempts ?q \<le> k \<and> k < attempts (wait_loop net timeout ?q) \<longrightarrow> outcome (net k) \<noteq> Status 200))"
        using "1.IH" [OF running False] .
      have aq: "attempts ?q = Suc (attempts p)" by simp
      have step: "\<And>k. attempts p \<le> k \<Longrightarrow> outcome (net k) = Status 200 \<Longrightarrow> Suc (attempts p) \<le> k"
        using False by (metis Suc_leI le_neq_implies_less)
      show ?thesis
        unfolding eq using ih step unfolding aq by (metis Suc_leD Suc_le_lessD)
    qed
  qed
qed

lemma wait_loop_naps:
  "naps (wait_loop net timeout p) + attempts p + (if ready (wait_loop net timeout p) then 1 else 0)
     = naps p + attempts (wait_loop net timeout p)"
proof (induction net timeout p rule: wait_loop.induct)
  case (1 net timeout p)
  show ?case
  proof (cases "elapsed p < timeout")
    case False
    then show ?thesis by (simp add: wait_loop_stop)
  next
    case running: True
    show ?thesis
    proof (cases "outcome (net (attempts p)) = Status 200")
      case True
      with running show ?thesis by (simp add: wait_loop_ready)
    next
      case False
      with running "1.IH" show ?thesis by (simp add: wait_loop_retry)
    qed
  qed
qed


lemmas wait_eval = wait_for_weaviate_def unreachable_def warming_up_def request_timeout_def
  sleep_interval_def wait_loop_stop wait_loop_ready wait_loop_retry

lemma unreachable_run:
  "wait_for_weaviate unreachable 1 =
     \<lparr>ready = False, elapsed = 7, attempts = 1, naps = 1, said = [Waiting]\<rparr>"
  by (simp add: wait_eval)

lemma warming_up_run:
  "wait_for_weaviate warming_up 60 =
     \<lparr>ready = True, elapsed = 7, attempts = 3, naps = 2, said = [Waiting, Waiting, Ready]\<rparr>"
  by (simp add: wait_eval)

text \<open>
  Claim C9. With a timeout of zero or less the guard of the loop fails at its first test:
  the probe answers False at once, having issued no health request, slept not at all and
  printed nothing, whatever the service would have answered.
\<close>

theorem wait_for_weaviate_nonpositive_timeout:
  "timeout \<le> 0 \<Longrightarrow>
   wait_for_weaviate net timeout =
     \<lparr>ready = False, elapsed = 0, attempts = 0, naps = 0, said = []\<rparr>"
  by (simp add: wait_for_weaviate_def wait_loop_stop)

theorem wait_for_weaviate_nonpositive_timeout_witness:
  "(0::real) \<le> 0 \<and> (- 1::real) \<le> 0 \<and>
   \<not> ready (wait_for_weaviate warming_up 0) \<and>
   attempts (wait_for_weaviate warming_up 0) = 0 \<and>
   naps (wait_for_weaviate warming_up 0) = 0 \<and>
   elapsed (wait_for_weaviate warming_up 0) = 0 \<and>
   attempts (wait_for_weaviate unreachable (- 1)) = 0"
  using wait_for_weaviate_nonpositive_timeout [of 0 warming_up]
    wait_for_weaviate_nonpositive_timeout [of "- 1" unreachable]
  by simp

text \<open>
  Claim C3 bounds the time of every call by \<open>timeout + request_timeout\<close>. The loop sleeps
  after a failed request before it looks at the clock again, so a call that answers False
  can take longer: with a timeout of one second and a service that is down, the single
  request takes its five seconds, the sleep two more, and the probe answers False after
  seven seconds, more than the six the claim allows.
\<close>

theorem wait_for_weaviate_bound_counterexample:
  "duration (unreachable 0) \<le> request_timeout \<and>
   \<not> ready (wait_for_weaviate unreachable 1) \<and>
   \<not> elapsed (wait_for_weaviate unreachable 1) \<le> 1 + request_timeout"
  by (simp add: wait_eval)

text \<open>
  Claim C3, amended. When no health request takes longer than \<open>request_timeout\<close>: the
  probe answers True on the first response with status 200 (no earlier request had one),
  less than \<open>timeout + request_timeout\<close> after the call; it answers False only at a test of
  the guard at which the elapsed time has reached \<open>timeout\<close>, no request having had
  status 200; for a positive timeout every call returns less than
  \<open>timeout + request_timeout + sleep_interval\<close> after it began, and for a timeout of zero
  or less it returns at once. The loop always returns: \<open>wait_loop\<close> is total, the
  elapsed time growing by at least \<open>sleep_interval\<close> in every round.
\<close>

theorem wait_for_weaviate_returns_within:
  assumes "\<forall>i. duration (net i) \<le> request_timeout"
  shows "(ready (wait_for_weaviate net timeout) \<longrightarrow>
            elapsed (wait_for_weaviate net timeout) < timeout + request_timeout \<and>
            0 < attempts (wait_for_weaviate net timeout) \<and>
            outcome (net (attempts (wait_for_weaviate net timeout) - 1)) = Status 200) \<and>
         (\<forall>k. Suc k < attempts (wait_for_weaviate net timeout) \<longrightarrow> outcome (net k) \<noteq> Status 200) \<and>
         (\<not> ready (wait_for_weaviate net timeout) \<longrightarrow>
            timeout \<le> elapsed (wait_for_weaviate net timeout) \<and>
            (\<forall>k < attempts (wait_for_weaviate net timeout). outcome (net k) \<noteq> Status 200)) \<and>
         (0 < timeout \<longrightarrow>
            elapsed (wait_for_weaviate net timeout) < timeout + request_timeout + sleep_interval) \<and>
         (timeout \<le> 0 \<longrightarrow> elapsed (wait_for_weaviate net timeout) = 0) \<and>
         0 \<le> elapsed (wait_for_weaviate net timeout)"
proof -
  let ?p0 = "\<lparr>ready = False, elapsed = 0, attempts = 0, naps = 0, said = []\<rparr>"
  have a: "ready (wait_loop net timeout ?p0) \<Longrightarrow>
             elapsed (wait_loop net timeout ?p0) < timeout + request_timeout"
    using wait_loop_ready_bound [OF assms] .
  have b: "\<not> ready (wait_loop net timeout ?p0) \<Longrightarrow> timeout \<le> elapsed (wait_loop net timeout ?p0)"
    by (rule wait_loop_unready_bound)
  have c: "0 < timeout \<Longrightarrow>
             elapsed (wait_loop net timeout ?p0) < timeout + request_timeout + sleep_interval"
    using wait_loop_total_bound [OF assms, of ?p0 timeout]
    by (simp add: request_timeout_def sleep_interval_def)
  have d: "timeout \<le> 0 \<Longrightarrow> elapsed (wait_loop net timeout ?p0) = 0"
    by (simp add: wait_loop_stop)
  have e: "0 \<le> elapsed (wait_loop net timeout ?p0)"
    using wait_loop_elapsed_mono [of ?p0 net timeout] by simp
  note f = wait_loop_attempts [of ?p0 net timeout]
  show ?thesis
    unfolding wait_for_weaviate_def using a b c d e f by simp
qed

theorem wait_for_weaviate_returns_within_witness:
  "(\<forall>i. duration (warming_up i) \<le> request_timeout) \<and>
   (\<forall>i. duration (unreachable i) \<le> request_timeout) \<and>
   ready (wait_for_weaviate warming_up 60) \<and>
   elapsed (wait_for_weaviate warming_up 60) < 60 + request_timeout \<and>
   outcome (warming_up (attempts (wait_for_weaviate warming_up 60) - 1)) = Status 200 \<and>
   \<not> ready (wait_for_weaviate unreachable 1) \<and>
   (0::real) < 1 \<and>
   1 \<le> elapsed (wait_for_weaviate unreachable 1) \<and>
   elapsed (wait_for_weaviate unreachable 1) < 1 + request_timeout + sleep_interval"
proof -
  have w: "\<forall>i. duration (warming_up i) \<le> request_timeout"
    by (simp add: warming_up_def request_timeout_def)
  have u: "\<forall>i. duration (unreachable i) \<le> request_timeout"
    by (simp add: unreachable_def)
  have r: "ready (wait_for_weaviate warming_up 60)"
    by (simp add: warming_up_run)
  have n: "\<not> ready (wait_for_weaviate unreachable 1)"
    by (simp add: unreachable_run)
  show ?thesis
    using w u r n wait_for_weaviate_returns_within [OF w, of 60]
      wait_for_weaviate_returns_within [OF u, of 1]
    by simp
qed


section \<open>Creating the collection\<close>

lemma exists_op_named: "exists_op n s \<longleftrightarrow> named n s \<noteq> []"
  by (induction s) (auto simp: exists_op_def named_def)

lemma named_delete_op: "named n (delete_op n s) = []"
  by (induction s) (auto simp: named_def delete_op_def)

lemma delete_op_absent: "\<not> exists_op n s \<Longrightarrow> delete_op n s = s"
  by (induction s) (auto simp: exists_op_def delete_op_def)

lemma delete_op_idem: "delete_op n (delete_op n s @ [c]) = delete_op n s @ (if cname c = n then [] else [c])"
  by (induction s) (auto simp: delete_op_def)

lemma create_op_after_delete:
  "create_op bbc_collection (delete_op ''bbc_collection'' s) =
     Some (delete_op ''bbc_collection'' s @ [bbc_collection])"
  by (simp add: create_op_def exists_op_named named_delete_op bbc_collection_def)

lemma create_bbc_collection_returns:
  "fst (create_bbc_collection sv w) = Ok h \<longleftrightarrow>
     h = ''bbc_collection'' \<and> \<not> exists_fails sv \<and>
     \<not> (exists_op ''bbc_collection'' (store w) \<and> delete_fails sv) \<and> \<not> create_fails sv"
proof (cases "exists_op ''bbc_collection'' (store w)")
  case True
  then show ?thesis
    using create_op_after_delete [of "store w"]
    by (auto simp: create_bbc_collection_def Let_def print_def)
next
  case False
  then show ?thesis
    using create_op_after_delete [of "store w"]
    by (auto simp: create_bbc_collection_def Let_def print_def delete_op_absent)
qed

lemma create_bbc_collection_store:
  assumes "fst (create_bbc_collection sv w) = Ok h"
  shows "store (snd (create_bbc_collection sv w)) =
           delete_op ''bbc_collection'' (store w) @ [bbc_collection]"
proof -
  from assms have ok: "\<not> exists_fails sv" "\<not> (exists_op ''bbc_collection'' (store w) \<and> delete_fails sv)"
    "\<not> create_fails sv"
    by (simp_all add: create_bbc_collection_returns)
  show ?thesis
  proof (cases "exists_op ''bbc_collection'' (store w)")
    case True
    with ok show ?thesis
      using create_op_after_delete [of "store w"]
      by (simp add: create_bbc_collection_def Let_def print_def)
  next
    case False
    with ok show ?thesis
      using create_op_after_delete [of "store w"]
      by (simp add: create_bbc_collection_def Let_def print_def delete_op_absent)
  qed
qed

lemma named_replaced:
  "named ''bbc_collection'' (delete_op ''bbc_collection'' s @ [bbc_collection]) = [bbc_collection]"
  using named_delete_op [of "''bbc_collection''" s]
  by (simp add: named_def bbc_collection_def)

lemma delete_op_replaced:
  "delete_op ''bbc_collection'' (delete_op ''bbc_collection'' s @ [bbc_collection]) =
     delete_op ''bbc_collection'' s"
  by (simp add: delete_op_idem bbc_collection_def)

text \<open>
  Claim C1. For every state of the remote collections, a call of \<open>create_bbc_collection\<close>
  returns exactly when the service fails none of the calls made (it never fails because
  the name is taken: a collection of that name is deleted first). After a call that
  returned, exactly one collection is named \<open>bbc_collection\<close>, and it is the new one: the
  seven properties, the vectorizer and index configuration, and no objects, with nothing
  kept of a collection of that name that was there before; the collections of other names
  are as they were. A second call that returns leaves the store as the first call left it.
\<close>

theorem create_bbc_collection_replaces:
  "(fst (create_bbc_collection sv w) = Ok ''bbc_collection'' \<longleftrightarrow>
      \<not> exists_fails sv \<and> \<not> (exists_op ''bbc_collection'' (store w) \<and> delete_fails sv) \<and>
      \<not> create_fails sv) \<and>
   (\<forall>h. fst (create_bbc_collection sv w) = Ok h \<longrightarrow>
      h = ''bbc_collection'' \<and>
      named ''bbc_collection'' (store (snd (create_bbc_collection sv w))) = [bbc_collection] \<and>
      length (named ''bbc_collection'' (store (snd (create_bbc_collection sv w)))) = 1 \<and>
      delete_op ''bbc_collection'' (store (snd (create_bbc_collection sv w))) =
        delete_op ''bbc_collection'' (store w) \<and>
      (\<forall>h'. fst (create_bbc_collection sv (snd (create_bbc_collection sv w))) = Ok h' \<longrightarrow>
         store (snd (create_bbc_collection sv (snd (create_bbc_collection sv w)))) =
           store (snd (create_bbc_collection sv w)) \<and>
         named ''bbc_collection''
           (store (snd (create_bbc_collection sv (snd (create_bbc_collection sv w))))) =
           [bbc_collection]))"
proof (intro conjI allI impI)
  show "fst (create_bbc_collection sv w) = Ok ''bbc_collection'' \<longleftrightarrow>
      \<not> exists_fails sv \<and> \<not> (exists_op ''bbc_collection'' (store w) \<and> delete_fails sv) \<and>
      \<not> create_fails sv"
    by (simp add: create_bbc_collection_returns)
next
  fix h assume ok: "fst (create_bbc_collection sv w) = Ok h"
  note st = create_bbc_collection_store [OF ok]
  show "h = ''bbc_collection''" using ok by (simp add: create_bbc_collection_returns)
  show "named ''bbc_collection'' (store (snd (create_bbc_collection sv w))) = [bbc_collection]"
    by (simp add: st named_replaced)
  then show "length (named ''bbc_collection'' (store (snd (create_bbc_collection sv w)))) = 1"
    by simp
  show "delete_op ''bbc_collection'' (store (snd (create_bbc_collection sv w))) =
        delete_op ''bbc_collection'' (store w)"
    by (simp add: st delete_op_replaced)
  fix h' assume ok2: "fst (create_bbc_collection sv (snd (create_bbc_collection sv w))) = Ok h'"
  note st2 = create_bbc_collection_store [OF ok2]
  show "store (snd (create_bbc_collection sv (snd (create_bbc_collection sv w)))) =
           store (snd (create_bbc_collection sv w))"
    by (simp add: st2 st delete_op_replaced)
  show "named ''bbc_collection''
           (store (snd (create_bbc_collection sv (snd (create_bbc_collection sv w))))) =
           [bbc_collection]"
    by (simp add: st2 named_replaced)
qed

lemma healthy_used_once:
  "create_bbc_collection healthy used =
     (Ok ''bbc_collection'',
      used\<lparr>store := [memo, bbc_collection], out := [AlreadyExists, Creating, Created]\<rparr>)"
  by (simp add: create_bbc_collection_def healthy_def used_def fresh_def exists_op_def
      delete_op_def create_op_def print_def old_collection_def memo_def bbc_collection_def Let_def)

lemma healthy_used_twice:
  "create_bbc_collection healthy (snd (create_bbc_collection healthy used)) =
     (Ok ''bbc_collection'',
      used\<lparr>store := [memo, bbc_collection],
           out := [AlreadyExists, Creating, Created, AlreadyExists, Creating, Created]\<rparr>)"
  unfolding healthy_used_once
  by (simp add: create_bbc_collection_def healthy_def used_def fresh_def exists_op_def
      delete_op_def create_op_def print_def old_collection_def memo_def bbc_collection_def Let_def)

theorem create_bbc_collection_replaces_witness:
  "fst (create_bbc_collection healthy used) = Ok ''bbc_collection'' \<and>
   named ''bbc_collection'' (store used) = [old_collection] \<and>
   properties old_collection \<noteq> bbc_properties \<and>
   named ''bbc_collection'' (store (snd (create_bbc_collection healthy used))) = [bbc_collection] \<and>
   properties bbc_collection = bbc_properties \<and>
   fst (create_bbc_collection healthy (snd (create_bbc_collection healthy used))) = Ok ''bbc_collection'' \<and>
   store (snd (create_bbc_collection healthy (snd (create_bbc_collection healthy used)))) =
     store (snd (create_bbc_collection healthy used)) \<and>
   store (snd (create_bbc_collection healthy used)) = [memo, bbc_collection]"
proof -
  have a: "fst (create_bbc_collection healthy used) = Ok ''bbc_collection''"
    by (simp add: healthy_used_once)
  have b: "fst (create_bbc_collection healthy (snd (create_bbc_collection healthy used))) = Ok ''bbc_collection''"
    by (simp add: healthy_used_twice)
  have c: "named ''bbc_collection'' (store used) = [old_collection]"
    by (simp add: named_def used_def fresh_def old_collection_def memo_def)
  have d: "properties old_collection \<noteq> bbc_properties" "properties bbc_collection = bbc_properties"
    by (simp_all add: old_collection_def bbc_properties_def bbc_collection_def)
  have e: "store (snd (create_bbc_collection healthy used)) = [memo, bbc_collection]"
    by (simp add: healthy_used_once)
  show ?thesis
    using a b c d e create_bbc_collection_replaces [of healthy used]
    by blast
qed


section \<open>Normalising a record\<close>

lemma data_object_of_apply:
  "data_object_of item k =
     (if k = ''title'' then Some (dict_get item ''title'' (VStr ''''))
      else if k = ''pubDate'' then Some (dict_get item ''pubDate'' (VStr ''''))
      else if k = ''link'' then Some (dict_get item ''link'' (VStr ''''))
      else if k = ''description'' then Some (dict_get item ''description'' (VStr ''''))
      else if k = ''chunk_index'' then Some (dict_get item ''chunk_index'' (VInt 0))
      else if k = ''chunk'' then Some (dict_get item ''chunk'' (VStr ''''))
      else if k = ''article_content'' then Some (dict_get item ''article_content'' (VStr ''''))
      else None)"
  by (simp add: data_object_of_def)

lemma load_data_to_collection_loaded:
  "dataset sv = Data recs \<Longrightarrow> \<exists>b. fst (load_data_to_collection sv coll w) = Ok b"
  by (auto simp: load_data_to_collection_def Let_def)

lemma data_object_of_fields:
  "\<forall>k \<in> set text_fields. item k = None \<longrightarrow> data_object_of item k = Some (VStr '''')"
  "item ''chunk_index'' = None \<longrightarrow> data_object_of item ''chunk_index'' = Some (VInt 0)"
  "\<forall>k \<in> set text_fields \<union> {''chunk_index''}. \<forall>v. item k = Some v \<longrightarrow> data_object_of item k = Some v"
  "dom (data_object_of item) = set text_fields \<union> {''chunk_index''}"
proof -
  show "\<forall>k \<in> set text_fields. item k = None \<longrightarrow> data_object_of item k = Some (VStr '''')"
    by (simp add: text_fields_def data_object_of_apply dict_get_def)
  show "item ''chunk_index'' = None \<longrightarrow> data_object_of item ''chunk_index'' = Some (VInt 0)"
    by (simp add: data_object_of_apply dict_get_def)
  show "\<forall>k \<in> set text_fields \<union> {''chunk_index''}. \<forall>v. item k = Some v \<longrightarrow> data_object_of item k = Some v"
    by (simp add: text_fields_def data_object_of_apply dict_get_def)
  show "dom (data_object_of item) = set text_fields \<union> {''chunk_index''}"
    by (auto simp: text_fields_def data_object_of_apply dom_def split: if_splits)
qed

section \<open>The missing dataset file\<close>

text \<open>
  Claim C4. When the dataset file is absent (\<open>joblib.load\<close> raises FileNotFoundError),
  \<open>load_data_to_collection\<close> returns False having opened no batch session and made no
  \<open>add_object\<close> call; the remote collections, and so the object count of the collection,
  are as before. Only the three lines are printed.
\<close>

theorem load_data_to_collection_missing_file:
  "dataset sv = Missing \<Longrightarrow>
   fst (load_data_to_collection sv coll w) = Ok False \<and>
   sessions (snd (load_data_to_collection sv coll w)) = sessions w \<and>
   sent (snd (load_data_to_collection sv coll w)) = sent w \<and>
   store (snd (load_data_to_collection sv coll w)) = store w \<and>
   object_count coll (store (snd (load_data_to_collection sv coll w))) = object_count coll (store w) \<and>
   connects (snd (load_data_to_collection sv coll w)) = connects w \<and>
   closes (snd (load_data_to_collection sv coll w)) = closes w \<and>
   out (snd (load_data_to_collection sv coll w)) = out w @ [LoadingData, DataNotFound, DataDirHint]"
  by (simp add: load_data_to_collection_def print_def)

theorem load_data_to_collection_missing_file_witness:
  "dataset (healthy\<lparr>dataset := Missing\<rparr>) = Missing \<and>
   load_data_to_collection (healthy\<lparr>dataset := Missing\<rparr>) ''bbc_collection'' used =
     (Ok False, used\<lparr>out := [LoadingData, DataNotFound, DataDirHint]\<rparr>) \<and>
   object_count ''bbc_collection'' (store used) = 1"
proof -
  have m: "dataset (healthy\<lparr>dataset := Missing\<rparr>) = Missing" by simp
  have o: "out used = []" by (simp add: used_def fresh_def)
  have c: "object_count ''bbc_collection'' (store used) = 1"
    by (simp add: object_count_def used_def fresh_def old_collection_def memo_def)
  have e: "snd (load_data_to_collection (healthy\<lparr>dataset := Missing\<rparr>) ''bbc_collection'' used) =
     used\<lparr>out := [LoadingData, DataNotFound, DataDirHint]\<rparr>"
    using load_data_to_collection_missing_file [OF m, of "''bbc_collection''" used] o
    by (intro world.equality) simp_all
  show ?thesis
    using load_data_to_collection_missing_file [OF m, of "''bbc_collection''" used] m c e
    by (simp add: prod_eq_iff)
qed

section \<open>Patching and restoring subprocess.Popen\<close>

text \<open>
  Claim C10. Whatever the body of the \<open>with\<close> block does (start subprocesses, rebind
  \<open>subprocess.Popen\<close>, return or raise), on leaving the context \<open>subprocess.Popen\<close> is
  bound to the function it was bound to on entering it; the body ran with the patched
  function, and its result, a value or an exception, is passed on.
\<close>

theorem suppress_subprocess_output_restores:
  "popen (snd (suppress_subprocess_output body s)) = popen s \<and>
   fst (suppress_subprocess_output body s) = fst (body (s\<lparr>popen := Patched (popen s)\<rparr>)) \<and>
   spawned (snd (suppress_subprocess_output body s)) =
     spawned (snd (body (s\<lparr>popen := Patched (popen s)\<rparr>)))"
  by (cases "body (s\<lparr>popen := Patched (popen s)\<rparr>)")
    (simp add: suppress_subprocess_output_def try_finally_def Let_def)

theorem suppress_subprocess_output_restores_witness:
  "suppress_subprocess_output (run \<lparr>stdout = Inherit, stderr = Pipe\<rparr>) \<lparr>popen = Original, spawned = []\<rparr> =
     (Ok (), \<lparr>popen = Original, spawned = [\<lparr>stdout = DEVNULL, stderr = DEVNULL\<rparr>]\<rparr>) \<and>
   suppress_subprocess_output (run_then_raise \<lparr>stdout = Inherit, stderr = Pipe\<rparr>)
       \<lparr>popen = Original, spawned = []\<rparr> =
     (Raised LoadError, \<lparr>popen = Original, spawned = [\<lparr>stdout = DEVNULL, stderr = DEVNULL\<rparr>]\<rparr>) \<and>
   popen (snd (suppress_subprocess_output
                 (suppress_subprocess_output (run_then_raise \<lparr>stdout = Inherit, stderr = Pipe\<rparr>))
                 \<lparr>popen = Original, spawned = []\<rparr>)) = Original"
  using suppress_subprocess_output_restores
          [of "suppress_subprocess_output (run_then_raise \<lparr>stdout = Inherit, stderr = Pipe\<rparr>)"
              "\<lparr>popen = Original, spawned = []\<rparr>"]
  by (simp add: suppress_subprocess_output_def try_finally_def run_def run_then_raise_def)


section \<open>The batch loop\<close>

lemma hundreds_step:
  "hundreds i (Suc n) = (if Suc i mod 100 = 0 then [Suc i] else []) @ hundreds (Suc i) n"
  by (simp add: hundreds_def upt_conv_Cons del: upt_Suc)

lemma hundreds_250: "hundreds 0 250 = [100, 200]"
  unfolding hundreds_def by code_simp

lemma batch_loop_raised:
  "raised (batch_loop svc len i ds b) \<longleftrightarrow> raised b \<or> returned svc i ds < length ds"
  by (induction ds arbitrary: i b) (auto simp: report_def split: add_outcome.splits)

lemma batch_loop_submitted:
  "submitted (batch_loop svc len i ds b) = submitted b @ take (Suc (returned svc i ds)) ds"
  by (induction ds arbitrary: i b) (auto simp: report_def split: add_outcome.splits)

lemma batch_loop_accepted:
  "accepted (batch_loop svc len i ds b) = accepted b @ stored svc i ds"
  by (induction ds arbitrary: i b) (auto simp: report_def split: add_outcome.splits)

lemma batch_loop_reports:
  "reports (batch_loop svc len i ds b) =
     reports b @ map (\<lambda>k. Progress k len) (hundreds i (returned svc i ds))"
proof (induction ds arbitrary: i b)
  case Nil
  show ?case by (simp add: hundreds_def)
next
  case (Cons d ds)
  show ?case
  proof (cases "svc i")
    case Raises
    then show ?thesis by (simp add: hundreds_def)
  next
    case Stored
    then show ?thesis by (simp add: Cons.IH hundreds_step report_def)
  next
    case Rejected
    then show ?thesis by (simp add: Cons.IH hundreds_step report_def)
  qed
qed

lemma returned_le: "returned svc i ds \<le> length ds"
  by (induction ds arbitrary: i) auto

lemma returned_all: "returned svc i ds = length ds \<longleftrightarrow> (\<forall>j < length ds. svc (i + j) \<noteq> Raises)"
proof (induction ds arbitrary: i)
  case Nil
  show ?case by simp
next
  case (Cons d ds)
  have "(\<forall>j < Suc (length ds). svc (i + j) \<noteq> Raises) \<longleftrightarrow>
        svc i \<noteq> Raises \<and> (\<forall>j < length ds. svc (Suc i + j) \<noteq> Raises)"
    by (auto simp: less_Suc_eq_0_disj)
  then show ?case using Cons.IH [of "Suc i"] returned_le [of svc "Suc i" ds] by auto
qed

lemma stored_le: "length (stored svc i ds) \<le> returned svc i ds"
  by (induction ds arbitrary: i) (auto split: add_outcome.splits intro: le_SucI)

lemma returned_never: "\<forall>j. svc j \<noteq> Raises \<Longrightarrow> returned svc i ds = length ds"
  by (induction ds arbitrary: i) auto

lemma stored_all: "(\<forall>j < length ds. svc (i + j) = Stored) \<Longrightarrow> stored svc i ds = ds"
proof (induction ds arbitrary: i)
  case Nil
  show ?case by simp
next
  case (Cons d ds)
  from Cons.prems have "svc i = Stored" by (metis add.right_neutral length_greater_0_conv list.distinct(1))
  moreover from Cons.prems have "\<forall>j < length ds. svc (Suc i + j) = Stored"
    by (metis Suc_less_eq add_Suc_shift length_Cons)
  ultimately show ?case using Cons.IH [of "Suc i"] by simp
qed

lemma object_count_add_to:
  "exists_op n s \<Longrightarrow> object_count n (add_to n objs s) = object_count n s + length objs"
  by (induction s) (auto simp: exists_op_def object_count_def)

lemma load_data_to_collection_true:
  "fst (load_data_to_collection sv coll w) = Ok True \<longleftrightarrow>
     (\<exists>recs. dataset sv = Data recs \<and> returned (add_result sv) 0 (map data_object_of recs) = length recs \<and>
        \<not> exit_fails sv)"
proof (cases "dataset sv")
  case (Data recs)
  then show ?thesis
    using returned_le [of "add_result sv" 0 "map data_object_of recs"]
    by (auto simp: load_data_to_collection_def Let_def batch_loop_raised)
qed (simp_all add: load_data_to_collection_def)

lemma load_data_to_collection_world:
  assumes "dataset sv = Data recs"
  shows "sessions (snd (load_data_to_collection sv coll w)) = Suc (sessions w)"
    and "sent (snd (load_data_to_collection sv coll w)) =
           sent w @ take (Suc (returned (add_result sv) 0 (map data_object_of recs))) (map data_object_of recs)"
    and "out (snd (load_data_to_collection sv coll w)) =
           out w @ [LoadingData, Found (length recs), Inserting] @
           map (\<lambda>k. Progress k (length recs))
             (hundreds 0 (returned (add_result sv) 0 (map data_object_of recs))) @
           [if fst (load_data_to_collection sv coll w) = Ok True then Loaded (length recs)
            else InsertError LoadError]"
    and "connects (snd (load_data_to_collection sv coll w)) = connects w"
    and "closes (snd (load_data_to_collection sv coll w)) = closes w"
  using assms
  by (simp_all add: load_data_to_collection_def Let_def print_def batch_loop_raised
      batch_loop_submitted batch_loop_accepted batch_loop_reports)

lemma load_data_to_collection_store:
  assumes "dataset sv = Data recs" and "fst (load_data_to_collection sv coll w) = Ok True"
  shows "store (snd (load_data_to_collection sv coll w)) =
           add_to coll (stored (add_result sv) 0 (map data_object_of recs)) (store w)"
proof -
  from assms have "returned (add_result sv) 0 (map data_object_of recs) = length recs" "\<not> exit_fails sv"
    by (simp_all add: load_data_to_collection_true)
  with assms(1) show ?thesis
    by (simp add: load_data_to_collection_def Let_def print_def batch_loop_raised batch_loop_accepted)
qed

text \<open>
  Claim C2, amended. A load that returns True opened one batch session and handed to
  \<open>add_object\<close> exactly one object per input record, in the order of the input, each the
  normalised record; this holds for the empty input too. The object count of an existing
  collection grows by the number of those objects that the service stored, which is at
  most the input length, and is the input length when the service rejected none.
\<close>

theorem load_data_to_collection_submits:
  assumes "dataset sv = Data recs" and "fst (load_data_to_collection sv coll w) = Ok True"
  shows "sessions (snd (load_data_to_collection sv coll w)) = Suc (sessions w) \<and>
         sent (snd (load_data_to_collection sv coll w)) = sent w @ map data_object_of recs \<and>
         length (sent (snd (load_data_to_collection sv coll w))) = length (sent w) + length recs \<and>
         length (stored (add_result sv) 0 (map data_object_of recs)) \<le> length recs \<and>
         (exists_op coll (store w) \<longrightarrow>
            object_count coll (store (snd (load_data_to_collection sv coll w))) =
              object_count coll (store w) +
              length (stored (add_result sv) 0 (map data_object_of recs))) \<and>
         (exists_op coll (store w) \<and> (\<forall>i < length recs. add_result sv i = Stored) \<longrightarrow>
            object_count coll (store (snd (load_data_to_collection sv coll w))) =
              object_count coll (store w) + length recs)"
proof -
  from assms have full: "returned (add_result sv) 0 (map data_object_of recs) = length recs"
    by (simp add: load_data_to_collection_true)
  have a: "sessions (snd (load_data_to_collection sv coll w)) = Suc (sessions w)"
    by (rule load_data_to_collection_world(1) [OF assms(1)])
  have b: "sent (snd (load_data_to_collection sv coll w)) = sent w @ map data_object_of recs"
    by (simp add: load_data_to_collection_world(2) [OF assms(1)] full)
  have c: "length (stored (add_result sv) 0 (map data_object_of recs)) \<le> length recs"
    using stored_le [of "add_result sv" 0 "map data_object_of recs"] full by simp
  have d: "exists_op coll (store w) \<Longrightarrow>
            object_count coll (store (snd (load_data_to_collection sv coll w))) =
              object_count coll (store w) +
              length (stored (add_result sv) 0 (map data_object_of recs))"
    by (simp add: load_data_to_collection_store [OF assms] object_count_add_to)
  have e: "\<forall>i < length recs. add_result sv i = Stored \<Longrightarrow>
             stored (add_result sv) 0 (map data_object_of recs) = map data_object_of recs"
    by (rule stored_all) simp
  show ?thesis using a b c d e by simp
qed

lemma picky_run:
  "fst (load_data_to_collection picky ''bbc_collection'' prepared) = Ok True"
  "object_count ''bbc_collection'' (store (snd (load_data_to_collection picky ''bbc_collection'' prepared))) = 1"
  "length (sent (snd (load_data_to_collection picky ''bbc_collection'' prepared))) = 2"
  by (simp_all add: load_data_to_collection_def picky_def healthy_def prepared_def fresh_def
      memo_def bbc_collection_def Let_def print_def report_def object_count_def)

text \<open>
  Claim C2 says that after a successful load the object count equals the input length.
  An object that the service rejects inside the batch raises nothing in the caller: with
  two records, the first of them rejected, the load of an empty collection returns True
  and the collection holds one object.
\<close>

theorem load_data_to_collection_count_counterexample:
  "dataset picky = Data [[''title'' \<mapsto> VStr ''a''], Map.empty] \<and>
   object_count ''bbc_collection'' (store prepared) = 0 \<and>
   fst (load_data_to_collection picky ''bbc_collection'' prepared) = Ok True \<and>
   object_count ''bbc_collection''
     (store (snd (load_data_to_collection picky ''bbc_collection'' prepared))) \<noteq>
     length [[''title'' \<mapsto> VStr ''a''], Map.empty :: item]"
  by (simp add: picky_run)
    (simp add: picky_def healthy_def prepared_def fresh_def memo_def bbc_collection_def
      object_count_def)

theorem load_data_to_collection_submits_witness:
  "dataset healthy = Data [[''title'' \<mapsto> VStr ''a''], Map.empty] \<and>
   fst (load_data_to_collection healthy ''bbc_collection'' prepared) = Ok True \<and>
   exists_op ''bbc_collection'' (store prepared) \<and>
   sent (snd (load_data_to_collection healthy ''bbc_collection'' prepared)) =
     [data_object_of [''title'' \<mapsto> VStr ''a''], data_object_of Map.empty] \<and>
   sessions (snd (load_data_to_collection healthy ''bbc_collection'' prepared)) = 1 \<and>
   object_count ''bbc_collection''
     (store (snd (load_data_to_collection healthy ''bbc_collection'' prepared))) = 2"
proof -
  have d: "dataset healthy = Data [[''title'' \<mapsto> VStr ''a''], Map.empty]"
    by (simp add: healthy_def)
  have t: "fst (load_data_to_collection healthy ''bbc_collection'' prepared) = Ok True"
    by (simp add: load_data_to_collection_true healthy_def)
  have x: "exists_op ''bbc_collection'' (store prepared)"
    by (simp add: exists_op_def prepared_def fresh_def memo_def bbc_collection_def)
  have s: "\<forall>i < length [[''title'' \<mapsto> VStr ''a''], Map.empty :: item]. add_result healthy i = Stored"
    by (simp add: healthy_def)
  have z: "sessions prepared = 0" "sent prepared = []" "object_count ''bbc_collection'' (store prepared) = 0"
    by (simp_all add: prepared_def fresh_def object_count_def memo_def bbc_collection_def)
  show ?thesis
    using d t x s z load_data_to_collection_submits [OF d t] by simp
qed

text \<open>
  Claim C6. Once the dataset is loaded, the lines printed by \<open>load_data_to_collection\<close>
  are the three opening lines, then one progress line for every count of returned
  \<open>add_object\<close> calls that is a positive multiple of 100, in increasing order and naming
  the input length, then the closing line. A load that returns True made one returning
  call per record; so with 250 records it prints exactly the progress lines for 100 and
  for 200 and then the completion line.
\<close>

theorem load_data_to_collection_progress:
  assumes "dataset sv = Data recs"
  shows "out (snd (load_data_to_collection sv coll w)) =
           out w @ [LoadingData, Found (length recs), Inserting] @
           map (\<lambda>k. Progress k (length recs))
             (filter (\<lambda>k. k mod 100 = 0)
                [1 ..< Suc (returned (add_result sv) 0 (map data_object_of recs))]) @
           [if fst (load_data_to_collection sv coll w) = Ok True then Loaded (length recs)
            else InsertError LoadError] \<and>
         returned (add_result sv) 0 (map data_object_of recs) \<le> length recs \<and>
         (fst (load_data_to_collection sv coll w) = Ok True \<longrightarrow>
            returned (add_result sv) 0 (map data_object_of recs) = length recs) \<and>
         (fst (load_data_to_collection sv coll w) = Ok True \<and> length recs = 250 \<longrightarrow>
            out (snd (load_data_to_collection sv coll w)) =
              out w @ [LoadingData, Found 250, Inserting, Progress 100 250, Progress 200 250,
                       Loaded 250])"
proof -
  let ?n = "returned (add_result sv) 0 (map data_object_of recs)"
  have o: "out (snd (load_data_to_collection sv coll w)) =
           out w @ [LoadingData, Found (length recs), Inserting] @
           map (\<lambda>k. Progress k (length recs)) (hundreds 0 ?n) @
           [if fst (load_data_to_collection sv coll w) = Ok True then Loaded (length recs)
            else InsertError LoadError]"
    by (rule load_data_to_collection_world(3) [OF assms])
  have le: "?n \<le> length recs"
    using returned_le [of "add_result sv" 0 "map data_object_of recs"] by simp
  have full: "fst (load_data_to_collection sv coll w) = Ok True \<Longrightarrow> ?n = length recs"
    using assms by (simp add: load_data_to_collection_true)
  have big: "fst (load_data_to_collection sv coll w) = Ok True \<Longrightarrow> length recs = 250 \<Longrightarrow>
            out (snd (load_data_to_collection sv coll w)) =
              out w @ [LoadingData, Found 250, Inserting, Progress 100 250, Progress 200 250,
                       Loaded 250]"
    using o full by (simp add: hundreds_250)
  show ?thesis
    using o le full big by (simp add: hundreds_def)
qed

theorem load_data_to_collection_progress_witness:
  "dataset bulk = Data (replicate 250 Map.empty) \<and>
   fst (load_data_to_collection bulk ''bbc_collection'' prepared) = Ok True \<and>
   length (replicate 250 (Map.empty :: item)) = 250 \<and>
   out (snd (load_data_to_collection bulk ''bbc_collection'' prepared)) =
     [LoadingData, Found 250, Inserting, Progress 100 250, Progress 200 250, Loaded 250]"
proof -
  have d: "dataset bulk = Data (replicate 250 Map.empty)"
    by (simp add: bulk_def)
  have r: "returned (add_result bulk) 0 (map data_object_of (replicate 250 Map.empty)) = 250"
    by (simp add: returned_never bulk_def healthy_def)
  have t: "fst (load_data_to_collection bulk ''bbc_collection'' prepared) = Ok True"
    using r by (simp add: load_data_to_collection_true bulk_def healthy_def)
  have z: "out prepared = []"
    by (simp add: prepared_def fresh_def)
  note last = load_data_to_collection_progress
                [OF d, of "''bbc_collection''" prepared, THEN conjunct2, THEN conjunct2, THEN conjunct2]
  show ?thesis
    using d t z last by simp
qed


section \<open>What the loader submits\<close>

lemma stored_subset: "set (stored svc i ds) \<subseteq> set ds"
  by (induction ds arbitrary: i) (auto split: add_outcome.splits)

lemma load_data_to_collection_nth_sent:
  assumes "dataset sv = Data recs"
    and "i < length (sent (snd (load_data_to_collection sv coll w))) - length (sent w)"
  shows "i < length recs"
    and "sent (snd (load_data_to_collection sv coll w)) ! (length (sent w) + i) =
           data_object_of (recs ! i)"
proof -
  let ?n = "Suc (returned (add_result sv) 0 (map data_object_of recs))"
  have s: "sent (snd (load_data_to_collection sv coll w)) =
             sent w @ take ?n (map data_object_of recs)"
    by (rule load_data_to_collection_world(2) [OF assms(1)])
  from assms(2) have i: "i < length (take ?n (map data_object_of recs))"
    unfolding s by simp
  then show "i < length recs" by simp
  from i have "take ?n (map data_object_of recs) ! i = data_object_of (recs ! i)"
    by simp
  then show "sent (snd (load_data_to_collection sv coll w)) ! (length (sent w) + i) =
           data_object_of (recs ! i)"
    unfolding s by (simp add: nth_append)
qed

text \<open>
  Claim C5. The object built from a record holds exactly the seven keys: for each of the
  six text fields that the record lacks the empty string, for a lacking \<open>chunk_index\<close>
  the integer 0, and for a field the record has the record's value. This object is what
  \<open>load_data_to_collection\<close> submits: the i-th object handed to \<open>add_object\<close> is the
  normalised i-th record, so it carries those defaults for the fields the record lacks,
  and every object the service stores is the normalised form of a record; after a load
  that returned True all records were submitted so, and the collection received the
  stored ones. A lacking field is no error: once the dataset is loaded, the load returns
  a boolean and does not raise.
\<close>

theorem data_object_of_defaults:
  "(\<forall>k \<in> set text_fields. item k = None \<longrightarrow> data_object_of item k = Some (VStr '''')) \<and>
   (item ''chunk_index'' = None \<longrightarrow> data_object_of item ''chunk_index'' = Some (VInt 0)) \<and>
   (\<forall>k \<in> set text_fields \<union> {''chunk_index''}. \<forall>v. item k = Some v \<longrightarrow> data_object_of item k = Some v) \<and>
   dom (data_object_of item) = set text_fields \<union> {''chunk_index''} \<and>
   (\<forall>recs. dataset sv = Data recs \<longrightarrow>
      (\<exists>b. fst (load_data_to_collection sv coll w) = Ok b) \<and>
      sent (snd (load_data_to_collection sv coll w)) =
        sent w @ take (Suc (returned (add_result sv) 0 (map data_object_of recs)))
                   (map data_object_of recs) \<and>
      (\<forall>i < length (sent (snd (load_data_to_collection sv coll w))) - length (sent w).
         i < length recs \<and>
         sent (snd (load_data_to_collection sv coll w)) ! (length (sent w) + i) =
           data_object_of (recs ! i) \<and>
         dom (sent (snd (load_data_to_collection sv coll w)) ! (length (sent w) + i)) =
           set text_fields \<union> {''chunk_index''} \<and>
         (\<forall>k \<in> set text_fields. (recs ! i) k = None \<longrightarrow>
            (sent (snd (load_data_to_collection sv coll w)) ! (length (sent w) + i)) k =
              Some (VStr '''')) \<and>
         ((recs ! i) ''chunk_index'' = None \<longrightarrow>
            (sent (snd (load_data_to_collection sv coll w)) ! (length (sent w) + i)) ''chunk_index'' =
              Some (VInt 0))) \<and>
      set (stored (add_result sv) 0 (map data_object_of recs)) \<subseteq> data_object_of ` set recs \<and>
      (fst (load_data_to_collection sv coll w) = Ok True \<longrightarrow>
         sent (snd (load_data_to_collection sv coll w)) = sent w @ map data_object_of recs \<and>
         store (snd (load_data_to_collection sv coll w)) =
           add_to coll (stored (add_result sv) 0 (map data_object_of recs)) (store w)))"
proof (intro conjI allI impI)
  show "\<forall>k \<in> set text_fields. item k = None \<longrightarrow> data_object_of item k = Some (VStr '''')"
    by (rule data_object_of_fields)
  show "item ''chunk_index'' = None \<Longrightarrow> data_object_of item ''chunk_index'' = Some (VInt 0)"
    using data_object_of_fields(2) by simp
  show "\<forall>k \<in> set text_fields \<union> {''chunk_index''}. \<forall>v. item k = Some v \<longrightarrow> data_object_of item k = Some v"
    by (rule data_object_of_fields)
  show "dom (data_object_of item) = set text_fields \<union> {''chunk_index''}"
    by (rule data_object_of_fields)
next
  fix recs assume d: "dataset sv = Data recs"
  show "\<exists>b. fst (load_data_to_collection sv coll w) = Ok b"
    using d by (rule load_data_to_collection_loaded)
  show "sent (snd (load_data_to_collection sv coll w)) =
        sent w @ take (Suc (returned (add_result sv) 0 (map data_object_of recs)))
                   (map data_object_of recs)"
    by (rule load_data_to_collection_world(2) [OF d])
  show "set (stored (add_result sv) 0 (map data_object_of recs)) \<subseteq> data_object_of ` set recs"
    using stored_subset [of "add_result sv" 0 "map data_object_of recs"] by simp
next
  fix recs i
  assume d: "dataset sv = Data recs"
    and i: "i < length (sent (snd (load_data_to_collection sv coll w))) - length (sent w)"
  note n = load_data_to_collection_nth_sent [OF d i]
  show "i < length recs" by (rule n)
  show "sent (snd (load_data_to_collection sv coll w)) ! (length (sent w) + i) =
           data_object_of (recs ! i)" by (rule n)
  show "dom (sent (snd (load_data_to_collection sv coll w)) ! (length (sent w) + i)) =
           set text_fields \<union> {''chunk_index''}"
    unfolding n(2) by (rule data_object_of_fields)
  show "\<forall>k \<in> set text_fields. (recs ! i) k = None \<longrightarrow>
            (sent (snd (load_data_to_collection sv coll w)) ! (length (sent w) + i)) k =
              Some (VStr '''')"
    unfolding n(2) by (rule data_object_of_fields)
  assume "(recs ! i) ''chunk_index'' = None"
  then show "(sent (snd (load_data_to_collection sv coll w)) ! (length (sent w) + i)) ''chunk_index'' =
              Some (VInt 0)"
    unfolding n(2) using data_object_of_fields(2) by simp
next
  fix recs
  assume d: "dataset sv = Data recs" and t: "fst (load_data_to_collection sv coll w) = Ok True"
  from d t have full: "returned (add_result sv) 0 (map data_object_of recs) = length recs"
    by (simp add: load_data_to_collection_true)
  show "sent (snd (load_data_to_collection sv coll w)) = sent w @ map data_object_of recs"
    by (simp add: load_data_to_collection_world(2) [OF d] full)
  show "store (snd (load_data_to_collection sv coll w)) =
           add_to coll (stored (add_result sv) 0 (map data_object_of recs)) (store w)"
    by (rule load_data_to_collection_store [OF d t])
qed

lemma healthy_load:
  "load_data_to_collection healthy ''bbc_collection'' prepared =
     (Ok True,
      prepared\<lparr>store := [memo, bbc_collection\<lparr>objects :=
                   [data_object_of [''title'' \<mapsto> VStr ''a''], data_object_of Map.empty]\<rparr>],
               out := [LoadingData, Found 2, Inserting, Loaded 2],
               sessions := 1,
               sent := [data_object_of [''title'' \<mapsto> VStr ''a''], data_object_of Map.empty]\<rparr>)"
  by (simp add: load_data_to_collection_def healthy_def prepared_def fresh_def memo_def
      bbc_collection_def Let_def print_def report_def)

theorem data_object_of_defaults_witness:
  "data_object_of Map.empty ''title'' = Some (VStr '''') \<and>
   data_object_of Map.empty ''chunk'' = Some (VStr '''') \<and>
   data_object_of Map.empty ''chunk_index'' = Some (VInt 0) \<and>
   data_object_of [''title'' \<mapsto> VStr ''a''] ''title'' = Some (VStr ''a'') \<and>
   data_object_of [''title'' \<mapsto> VStr ''a''] ''link'' = Some (VStr '''') \<and>
   data_object_of [''title'' \<mapsto> VStr ''a''] ''chunk_index'' = Some (VInt 0) \<and>
   dataset healthy = Data [[''title'' \<mapsto> VStr ''a''], Map.empty] \<and>
   fst (load_data_to_collection healthy ''bbc_collection'' prepared) = Ok True \<and>
   length (sent (snd (load_data_to_collection healthy ''bbc_collection'' prepared))) = 2 \<and>
   (sent (snd (load_data_to_collection healthy ''bbc_collection'' prepared)) ! 0) ''title'' =
     Some (VStr ''a'') \<and>
   (sent (snd (load_data_to_collection healthy ''bbc_collection'' prepared)) ! 0) ''link'' =
     Some (VStr '''') \<and>
   (sent (snd (load_data_to_collection healthy ''bbc_collection'' prepared)) ! 1) ''title'' =
     Some (VStr '''') \<and>
   (sent (snd (load_data_to_collection healthy ''bbc_collection'' prepared)) ! 1) ''chunk_index'' =
     Some (VInt 0) \<and>
   store (snd (load_data_to_collection healthy ''bbc_collection'' prepared)) =
     [memo, bbc_collection\<lparr>objects :=
        [data_object_of [''title'' \<mapsto> VStr ''a''], data_object_of Map.empty]\<rparr>]"
proof -
  have d: "dataset healthy = Data [[''title'' \<mapsto> VStr ''a''], Map.empty]"
    by (simp add: healthy_def)
  have m: "''title'' \<in> set text_fields" "''chunk'' \<in> set text_fields" "''link'' \<in> set text_fields"
    by (simp_all add: text_fields_def)
  have t: "fst (load_data_to_collection healthy ''bbc_collection'' prepared) = Ok True"
    by (simp add: healthy_load)
  have z: "sent prepared = []"
    by (simp add: prepared_def fresh_def)
  have r: "returned (add_result healthy) 0
             (map data_object_of [[''title'' \<mapsto> VStr ''a''], Map.empty]) = 2"
    by (simp add: healthy_def)
  have st: "store (snd (load_data_to_collection healthy ''bbc_collection'' prepared)) =
     [memo, bbc_collection\<lparr>objects :=
        [data_object_of [''title'' \<mapsto> VStr ''a''], data_object_of Map.empty]\<rparr>]"
    by (simp add: healthy_load)
  note item1 = data_object_of_defaults [of Map.empty healthy "''bbc_collection''" prepared]
  note item2 = data_object_of_defaults [of "[''title'' \<mapsto> VStr ''a'']" healthy "''bbc_collection''" prepared]
  have a: "data_object_of Map.empty ''title'' = Some (VStr '''') \<and>
   data_object_of Map.empty ''chunk'' = Some (VStr '''') \<and>
   data_object_of Map.empty ''chunk_index'' = Some (VInt 0)"
    using m item1 by simp
  have b: "data_object_of [''title'' \<mapsto> VStr ''a''] ''title'' = Some (VStr ''a'') \<and>
   data_object_of [''title'' \<mapsto> VStr ''a''] ''link'' = Some (VStr '''') \<and>
   data_object_of [''title'' \<mapsto> VStr ''a''] ''chunk_index'' = Some (VInt 0)"
    using m item2 by simp
  from item1 d t have s: "sent (snd (load_data_to_collection healthy ''bbc_collection'' prepared)) =
      sent prepared @ map data_object_of [[''title'' \<mapsto> VStr ''a''], Map.empty]"
    by blast
  show ?thesis
    using a b d t st unfolding s z by simp
qed

section \<open>The program: exit code and connection handle\<close>

lemma create_bbc_collection_fst:
  "store w = store w' \<Longrightarrow> fst (create_bbc_collection sv w) = fst (create_bbc_collection sv w')"
  by (simp add: create_bbc_collection_def Let_def print_def split: option.splits)

lemma create_bbc_collection_handles:
  "connects (snd (create_bbc_collection sv w)) = connects w"
  "closes (snd (create_bbc_collection sv w)) = closes w"
  by (simp_all add: create_bbc_collection_def Let_def print_def split: option.splits)

lemma create_bbc_collection_raises:
  "fst (create_bbc_collection sv w) = Raised e \<Longrightarrow> e = SchemaError"
  by (simp add: create_bbc_collection_def Let_def print_def split: option.splits if_splits)

lemma load_data_to_collection_fst:
  "fst (load_data_to_collection sv coll w) = fst (load_data_to_collection sv coll' w')"
  by (cases "dataset sv") (simp_all add: load_data_to_collection_def Let_def)

lemma load_data_to_collection_handles:
  "connects (snd (load_data_to_collection sv coll w)) = connects w"
  "closes (snd (load_data_to_collection sv coll w)) = closes w"
  by (cases "dataset sv"; simp add: load_data_to_collection_def Let_def print_def)+

lemma load_data_to_collection_raises:
  "fst (load_data_to_collection sv coll w) = Raised e \<Longrightarrow> e = DataSourceError"
  by (cases "dataset sv") (simp_all add: load_data_to_collection_def Let_def split: if_splits)

subsection \<open>What the try block leaves behind\<close>

lemma main_try_unconnected:
  "connect_fails sv \<Longrightarrow> main_try sv w = (Raised ConnectionError, False, w)"
  by (simp add: main_try_def connect_to_local_def)

lemma create_bbc_collection_handles_pair:
  "create_bbc_collection sv w = (r, w') \<Longrightarrow> connects w' = connects w \<and> closes w' = closes w"
  using create_bbc_collection_handles [of sv w] by simp

lemma load_data_to_collection_handles_pair:
  "load_data_to_collection sv coll w = (r, w') \<Longrightarrow> connects w' = connects w \<and> closes w' = closes w"
  using load_data_to_collection_handles [of sv coll w] by simp

lemma main_try_connected:
  assumes "\<not> connect_fails sv"
  shows "fst (snd (main_try sv w))"
    and "connects (snd (snd (main_try sv w))) = Suc (connects w)"
    and "closes (snd (snd (main_try sv w))) = closes w"
  using assms
  by (auto simp: main_try_def connect_to_local_def print_def
      split: prod.splits result.splits
      dest!: create_bbc_collection_handles_pair load_data_to_collection_handles_pair)

lemma main_try_result:
  assumes "\<not> connect_fails sv"
  shows "fst (main_try sv w) =
          (case fst (create_bbc_collection sv w) of
             Raised e \<Rightarrow> Raised e
           | Ok coll \<Rightarrow>
               (case fst (load_data_to_collection sv coll w) of
                  Raised e \<Rightarrow> Raised e
                | Ok loaded \<Rightarrow> if loaded then Ok () else Raised (SystemExit 1)))"
proof -
  let ?w1 = "print [Connected] (w\<lparr>connects := Suc (connects w)\<rparr>)"
  have c: "fst (create_bbc_collection sv ?w1) = fst (create_bbc_collection sv w)"
    by (rule create_bbc_collection_fst) (simp add: print_def)
  obtain r2 w2 where cr: "create_bbc_collection sv ?w1 = (r2, w2)"
    by (cases "create_bbc_collection sv ?w1")
  with c have r2: "fst (create_bbc_collection sv w) = r2" by simp
  show ?thesis
  proof (cases r2)
    case (Raised e)
    with assms cr r2 show ?thesis
      by (simp add: main_try_def connect_to_local_def)
  next
    case (Ok coll)
    obtain r3 w3 where ld: "load_data_to_collection sv coll w2 = (r3, w3)"
      by (cases "load_data_to_collection sv coll w2")
    have "fst (load_data_to_collection sv coll w) = fst (load_data_to_collection sv coll w2)"
      by (rule load_data_to_collection_fst)
    with ld have r3: "fst (load_data_to_collection sv coll w) = r3" by simp
    from assms cr Ok ld r2 r3 show ?thesis
      by (cases r3) (simp_all add: main_try_def connect_to_local_def)
  qed
qed

lemma main_try_out:
  "\<exists>pre. out (snd (snd (main_try sv w))) = out w @ pre @
      (case fst (main_try sv w) of
         Ok u \<Rightarrow> [SetupCompleted, RunNotebook]
       | Raised e \<Rightarrow> if is_Exception e then [] else [SetupFailed])"
proof (cases "connect_fails sv")
  case True
  then show ?thesis by (simp add: main_try_unconnected)
next
  case False
  let ?w1 = "print [Connected] (w\<lparr>connects := Suc (connects w)\<rparr>)"
  obtain r2 w2 where cr: "create_bbc_collection sv ?w1 = (r2, w2)"
    by (cases "create_bbc_collection sv ?w1")
  have o2: "\<exists>pre. out w2 = out w @ pre"
  proof -
    have "\<exists>pre. out (snd (create_bbc_collection sv ?w1)) = out ?w1 @ pre"
      by (simp add: create_bbc_collection_def Let_def print_def split: option.splits)
    then show ?thesis using cr by (auto simp: print_def)
  qed
  show ?thesis
  proof (cases r2)
    case (Raised e)
    then have "e = SchemaError" using create_bbc_collection_raises [of sv ?w1 e] cr by simp
    with False cr Raised o2 show ?thesis
      by (simp add: main_try_def connect_to_local_def)
  next
    case (Ok coll)
    obtain r3 w3 where ld: "load_data_to_collection sv coll w2 = (r3, w3)"
      by (cases "load_data_to_collection sv coll w2")
    have "\<exists>pre. out (snd (load_data_to_collection sv coll w2)) = out w2 @ pre"
      by (cases "dataset sv") (simp_all add: load_data_to_collection_def Let_def print_def)
    with ld o2 have o3: "\<exists>pre. out w3 = out w @ pre" by auto
    show ?thesis
    proof (cases r3)
      case (Raised e)
      then have "e = DataSourceError"
        using load_data_to_collection_raises [of sv coll w2 e] ld by simp
      with False cr Ok ld Raised o3 show ?thesis
        by (simp add: main_try_def connect_to_local_def)
    next
      case ok: (Ok loaded)
      from o3 obtain pre where "out w3 = out w @ pre" ..
      with False cr Ok ld ok show ?thesis
        by (simp add: main_try_def connect_to_local_def print_def)
    qed
  qed
qed


lemma main_except_handles:
  "connects (snd (snd (main_except t))) = connects (snd (snd t))"
  "closes (snd (snd (main_except t))) = closes (snd (snd t))"
  "fst (snd (main_except t)) = fst (snd t)"
  by (cases t; cases "fst t"; simp add: main_except_def print_def)+

lemma main_except_result:
  "fst (main_except t) = (case fst t of Ok u \<Rightarrow> Ok u | Raised e \<Rightarrow> Raised (SystemExit (if is_Exception e then 1 else (case e of SystemExit n \<Rightarrow> n | _ \<Rightarrow> 1))))"
  by (cases t; cases "fst t") (auto simp: main_except_def split: exn.splits)

lemma main_except_out:
  "out (snd (snd (main_except t))) =
     out (snd (snd t)) @
     (case fst t of Ok u \<Rightarrow> [] | Raised e \<Rightarrow> if is_Exception e then [ConnectError e, ConnectHint] else [])"
  by (cases t; cases "fst t") (auto simp: main_except_def print_def)

lemma main_finally_parts:
  "fst (main_finally t) = fst t"
  "out (snd (main_finally t)) = out (snd (snd t))"
  "connects (snd (main_finally t)) = connects (snd (snd t))"
  "closes (snd (main_finally t)) = closes (snd (snd t)) + (if fst (snd t) then 1 else 0)"
  by (cases t; simp add: main_finally_def close_def)+

lemma main_unready:
  "\<not> ready (wait_for_weaviate (health sv) 60) \<Longrightarrow>
   main sv w =
     (Raised (SystemExit 1),
      print [NotReady] (print (said (wait_for_weaviate (health sv) 60)) (print [Banner, Rule] w)))"
  by (simp add: main_def Let_def)

lemma main_ready:
  "ready (wait_for_weaviate (health sv) 60) \<Longrightarrow>
   main sv w =
     main_finally (main_except (main_try sv
       (print (said (wait_for_weaviate (health sv) 60)) (print [Banner, Rule] w))))"
  by (simp add: main_def Let_def)

lemma main_result:
  "fst (main sv w) =
     (if ready (wait_for_weaviate (health sv) 60) \<and> \<not> connect_fails sv \<and>
         fst (create_bbc_collection sv w) = Ok ''bbc_collection'' \<and>
         fst (load_data_to_collection sv ''bbc_collection'' w) = Ok True
      then Ok () else Raised (SystemExit 1))"
proof (cases "ready (wait_for_weaviate (health sv) 60)")
  case False
  then show ?thesis by (simp add: main_unready)
next
  case True
  let ?w1 = "print (said (wait_for_weaviate (health sv) 60)) (print [Banner, Rule] w)"
  have m: "fst (main sv w) = fst (main_except (main_try sv ?w1))"
    using True by (simp add: main_ready main_finally_parts)
  show ?thesis
  proof (cases "connect_fails sv")
    case True
    then show ?thesis unfolding m by (simp add: main_try_unconnected main_except_result)
  next
    case False
    have c: "fst (create_bbc_collection sv ?w1) = fst (create_bbc_collection sv w)"
      by (rule create_bbc_collection_fst) (simp add: print_def)
    have l: "\<And>coll. fst (load_data_to_collection sv coll ?w1) =
                 fst (load_data_to_collection sv ''bbc_collection'' w)"
      by (rule load_data_to_collection_fst)
    show ?thesis
    proof (cases "fst (create_bbc_collection sv w)")
      case (Raised e)
      then have "e = SchemaError" by (rule create_bbc_collection_raises)
      with Raised True False c show ?thesis
        unfolding m by (simp add: main_except_result main_try_result)
    next
      case (Ok coll)
      then have coll: "coll = ''bbc_collection''"
        by (simp add: create_bbc_collection_returns)
      show ?thesis
      proof (cases "fst (load_data_to_collection sv ''bbc_collection'' w)")
        case (Raised e)
        then have "e = DataSourceError" by (rule load_data_to_collection_raises)
        with Raised True False c l Ok coll show ?thesis
          unfolding m by (simp add: main_except_result main_try_result)
      next
        case ok: (Ok loaded)
        with True False c l Ok coll show ?thesis
          unfolding m by (simp add: main_except_result main_try_result)
      qed
    qed
  qed
qed

lemma main_out:
  "\<exists>pre. out (snd (main sv w)) = out w @ pre @
     (if \<not> ready (wait_for_weaviate (health sv) 60) then [NotReady]
      else (case fst (main_try sv (print (said (wait_for_weaviate (health sv) 60)) (print [Banner, Rule] w))) of
              Ok u \<Rightarrow> [SetupCompleted, RunNotebook]
            | Raised e \<Rightarrow> if is_Exception e then [ConnectError e, ConnectHint] else [SetupFailed]))"
proof (cases "ready (wait_for_weaviate (health sv) 60)")
  case False
  then show ?thesis by (simp add: main_unready print_def)
next
  case True
  let ?w1 = "print (said (wait_for_weaviate (health sv) 60)) (print [Banner, Rule] w)"
  from main_try_out [of sv ?w1] obtain pre where
    p: "out (snd (snd (main_try sv ?w1))) = out ?w1 @ pre @
      (case fst (main_try sv ?w1) of
         Ok u \<Rightarrow> [SetupCompleted, RunNotebook]
       | Raised e \<Rightarrow> if is_Exception e then [] else [SetupFailed])" ..
  have "out (snd (main sv w)) = out w @ ([Banner, Rule] @ said (wait_for_weaviate (health sv) 60) @ pre) @
      (case fst (main_try sv ?w1) of
              Ok u \<Rightarrow> [SetupCompleted, RunNotebook]
            | Raised e \<Rightarrow> if is_Exception e then [ConnectError e, ConnectHint] else [SetupFailed])"
    using True p
    by (simp add: main_ready main_finally_parts main_except_out print_def split: result.splits)
  then show ?thesis using True by (intro exI) simp
qed

text \<open>
  Claim C7, amended. In \<open>main\<close> of setup_collection.py a handle is acquired exactly when
  the service became ready and \<open>connect_to_local\<close> did not raise, and then \<open>close\<close> is
  called exactly once, on every path: normal completion, a load that returned False
  (\<open>sys.exit(1)\<close> inside the \<open>try\<close>), and an exception raised after the connection. When
  no handle was acquired, \<open>close\<close> is not called. The module body of weaviate_server.py
  acquires a handle under the same condition and never closes it.
\<close>

theorem main_closes_handle:
  "connects (snd (main sv w)) =
     connects w + (if ready (wait_for_weaviate (health sv) 60) \<and> \<not> connect_fails sv then 1 else 0) \<and>
   closes (snd (main sv w)) =
     closes w + (if ready (wait_for_weaviate (health sv) 60) \<and> \<not> connect_fails sv then 1 else 0) \<and>
   closes (snd (main sv w)) + connects w = closes w + connects (snd (main sv w)) \<and>
   closes (snd (weaviate_server sv w)) = closes w \<and>
   connects (snd (weaviate_server sv w)) =
     connects w + (if ready (wait_for_weaviate (health sv) 60) \<and> \<not> connect_fails sv then 1 else 0)"
proof -
  have server: "closes (snd (weaviate_server sv w)) = closes w \<and>
   connects (snd (weaviate_server sv w)) =
     connects w + (if ready (wait_for_weaviate (health sv) 60) \<and> \<not> connect_fails sv then 1 else 0)"
    by (simp add: weaviate_server_def connect_to_local_def print_def Let_def)
  show ?thesis
  proof (cases "ready (wait_for_weaviate (health sv) 60)")
    case False
    then show ?thesis using server by (simp add: main_unready print_def)
  next
    case True
    show ?thesis
    proof (cases "connect_fails sv")
      case True
      with \<open>ready (wait_for_weaviate (health sv) 60)\<close> server show ?thesis
        by (simp add: main_ready main_finally_parts main_except_handles main_try_unconnected print_def)
    next
      case False
      with True server show ?thesis
        by (simp add: main_ready main_finally_parts main_except_handles main_try_connected print_def)
    qed
  qed
qed

text \<open>
  Claim C8. The exit code of setup_collection.py is 0 exactly when the service became
  ready, the connection was made, \<open>create_bbc_collection\<close> returned and
  \<open>load_data_to_collection\<close> returned True; otherwise it is 1. With exit code 0 the last
  lines printed are the two of the success message. With exit code 1 the last thing
  printed is a failure message: the not-ready line, the setup-failed line, or the error
  line with the exception followed by the hint.
\<close>

theorem main_exit_code:
  "(exit_code (fst (main sv w)) = 0 \<longleftrightarrow>
      ready (wait_for_weaviate (health sv) 60) \<and> \<not> connect_fails sv \<and>
      fst (create_bbc_collection sv w) = Ok ''bbc_collection'' \<and>
      fst (load_data_to_collection sv ''bbc_collection'' w) = Ok True) \<and>
   (exit_code (fst (main sv w)) \<noteq> 0 \<longrightarrow> exit_code (fst (main sv w)) = 1) \<and>
   (exit_code (fst (main sv w)) = 0 \<longrightarrow>
      (\<exists>pre. out (snd (main sv w)) = out w @ pre @ [SetupCompleted, RunNotebook])) \<and>
   (exit_code (fst (main sv w)) = 1 \<longrightarrow>
      (\<exists>pre. out (snd (main sv w)) = out w @ pre @ [NotReady]) \<or>
      (\<exists>pre. out (snd (main sv w)) = out w @ pre @ [SetupFailed]) \<or>
      (\<exists>pre e. out (snd (main sv w)) = out w @ pre @ [ConnectError e, ConnectHint]))"
proof -
  let ?w1 = "print (said (wait_for_weaviate (health sv) 60)) (print [Banner, Rule] w)"
  have r: "fst (main sv w) = Ok () \<or> fst (main sv w) = Raised (SystemExit 1)"
    by (simp add: main_result)
  have t: "ready (wait_for_weaviate (health sv) 60) \<Longrightarrow>
           fst (main sv w) = fst (main_except (main_try sv ?w1))"
    by (simp add: main_ready main_finally_parts)
  from main_out [of sv w] obtain pre where
    o: "out (snd (main sv w)) = out w @ pre @
     (if \<not> ready (wait_for_weaviate (health sv) 60) then [NotReady]
      else (case fst (main_try sv ?w1) of
              Ok u \<Rightarrow> [SetupCompleted, RunNotebook]
            | Raised e \<Rightarrow> if is_Exception e then [ConnectError e, ConnectHint] else [SetupFailed]))" ..
  have zero: "exit_code (fst (main sv w)) = 0 \<Longrightarrow>
      \<exists>pre. out (snd (main sv w)) = out w @ pre @ [SetupCompleted, RunNotebook]"
  proof -
    assume z: "exit_code (fst (main sv w)) = 0"
    with r have ok: "fst (main sv w) = Ok ()" by auto
    then have rd: "ready (wait_for_weaviate (health sv) 60)"
      by (simp add: main_result split: if_splits)
    from ok t [OF rd] have "\<exists>u. fst (main_try sv ?w1) = Ok u"
      by (cases "fst (main_try sv ?w1)") (simp_all add: main_except_result)
    with o rd show ?thesis by auto
  qed
  have one: "exit_code (fst (main sv w)) = 1 \<Longrightarrow>
      (\<exists>pre. out (snd (main sv w)) = out w @ pre @ [NotReady]) \<or>
      (\<exists>pre. out (snd (main sv w)) = out w @ pre @ [SetupFailed]) \<or>
      (\<exists>pre e. out (snd (main sv w)) = out w @ pre @ [ConnectError e, ConnectHint])"
  proof -
    assume z: "exit_code (fst (main sv w)) = 1"
    show ?thesis
    proof (cases "ready (wait_for_weaviate (health sv) 60)")
      case False
      with o show ?thesis by auto
    next
      case True
      from z r have "fst (main sv w) = Raised (SystemExit 1)" by auto
      with t [OF True] obtain e where e: "fst (main_try sv ?w1) = Raised e"
        by (cases "fst (main_try sv ?w1)") (simp_all add: main_except_result)
      show ?thesis
      proof (cases "is_Exception e")
        case True
        with o e \<open>ready (wait_for_weaviate (health sv) 60)\<close>
        have "out (snd (main sv w)) = out w @ pre @ [ConnectError e, ConnectHint]" by simp
        then show ?thesis by blast
      next
        case False
        with o e \<open>ready (wait_for_weaviate (health sv) 60)\<close>
        have "out (snd (main sv w)) = out w @ pre @ [SetupFailed]" by simp
        then show ?thesis by blast
      qed
    qed
  qed
  have iff: "exit_code (fst (main sv w)) = 0 \<longleftrightarrow>
      ready (wait_for_weaviate (health sv) 60) \<and> \<not> connect_fails sv \<and>
      fst (create_bbc_collection sv w) = Ok ''bbc_collection'' \<and>
      fst (load_data_to_collection sv ''bbc_collection'' w) = Ok True"
    by (simp add: main_result)
  have code: "exit_code (fst (main sv w)) \<noteq> 0 \<Longrightarrow> exit_code (fst (main sv w)) = 1"
    using r by auto
  show ?thesis using iff code zero one by blast
qed

lemma healthy_ready: "ready (wait_for_weaviate (health healthy) 60)"
  by (simp add: healthy_def warming_up_run)

lemma healthy_main:
  "main healthy fresh =
     (Ok (),
      \<lparr>store = [bbc_collection\<lparr>objects := [data_object_of [''title'' \<mapsto> VStr ''a''], data_object_of Map.empty]\<rparr>],
       out = [Banner, Rule, Waiting, Waiting, Ready, Connected, Creating, Created, LoadingData,
              Found 2, Inserting, Loaded 2, SetupCompleted, RunNotebook],
       connects = 1, closes = 1, sessions = 1,
       sent = [data_object_of [''title'' \<mapsto> VStr ''a''], data_object_of Map.empty]\<rparr>)"
  using healthy_ready
  by (simp add: main_ready)
    (simp add: healthy_def warming_up_run main_try_def main_except_def main_finally_def
      connect_to_local_def close_def create_bbc_collection_def load_data_to_collection_def
      print_def fresh_def exists_op_def create_op_def bbc_collection_def Let_def report_def)

lemma healthy_weaviate_server:
  "weaviate_server healthy fresh =
     (Ok (), fresh\<lparr>out := [Waiting, Waiting, Ready, ConnectedDocker], connects := 1\<rparr>)"
  by (simp add: weaviate_server_def healthy_def warming_up_run connect_to_local_def print_def
      fresh_def Let_def)


lemma unreachable_minute:
  "wait_for_weaviate unreachable 60 =
     \<lparr>ready = False, elapsed = 63, attempts = 9, naps = 9,
      said = [Waiting, Waiting, Waiting, Waiting, Waiting, Waiting, Waiting, Waiting, Waiting]\<rparr>"
  by (simp add: wait_eval)

text \<open>
  Claim C7 speaks of every exit path on which a handle was acquired, and names the
  module-level \<open>client\<close> of weaviate_server.py among its places. That module connects and
  ends with the handle open: it holds no call of \<open>close\<close>.
\<close>

theorem weaviate_server_handle_counterexample:
  "fst (weaviate_server healthy fresh) = Ok () \<and>
   connects (snd (weaviate_server healthy fresh)) = 1 \<and>
   closes (snd (weaviate_server healthy fresh)) = 0"
  by (simp add: healthy_weaviate_server) (simp add: fresh_def)

theorem main_closes_handle_witness:
  "connects (snd (main healthy fresh)) = 1 \<and> closes (snd (main healthy fresh)) = 1 \<and>
   connects (snd (main (healthy\<lparr>dataset := Missing\<rparr>) fresh)) = 1 \<and>
   closes (snd (main (healthy\<lparr>dataset := Missing\<rparr>) fresh)) = 1 \<and>
   connects (snd (main (healthy\<lparr>create_fails := True\<rparr>) fresh)) = 1 \<and>
   closes (snd (main (healthy\<lparr>create_fails := True\<rparr>) fresh)) = 1 \<and>
   connects (snd (main (healthy\<lparr>connect_fails := True\<rparr>) fresh)) = 0 \<and>
   closes (snd (main (healthy\<lparr>connect_fails := True\<rparr>) fresh)) = 0 \<and>
   connects (snd (main (healthy\<lparr>health := unreachable\<rparr>) fresh)) = 0 \<and>
   closes (snd (main (healthy\<lparr>health := unreachable\<rparr>) fresh)) = 0"
proof -
  have z: "connects fresh = 0" "closes fresh = 0"
    by (simp_all add: fresh_def)
  have f: "\<not> connect_fails healthy"
    by (simp add: healthy_def)
  have u: "\<not> ready (wait_for_weaviate unreachable 60)"
    by (simp add: unreachable_minute)
  show ?thesis
    using z f u healthy_ready
      main_closes_handle [of healthy fresh]
      main_closes_handle [of "healthy\<lparr>dataset := Missing\<rparr>" fresh]
      main_closes_handle [of "healthy\<lparr>create_fails := True\<rparr>" fresh]
      main_closes_handle [of "healthy\<lparr>connect_fails := True\<rparr>" fresh]
      main_closes_handle [of "healthy\<lparr>health := unreachable\<rparr>" fresh]
    by simp
qed

theorem main_exit_code_witness:
  "exit_code (fst (main healthy fresh)) = 0 \<and>
   last (out (snd (main healthy fresh))) = RunNotebook \<and>
   exit_code (fst (main (healthy\<lparr>dataset := Missing\<rparr>) fresh)) = 1 \<and>
   exit_code (fst (main (healthy\<lparr>create_fails := True\<rparr>) fresh)) = 1 \<and>
   exit_code (fst (main (healthy\<lparr>connect_fails := True\<rparr>) fresh)) = 1 \<and>
   exit_code (fst (main (healthy\<lparr>health := unreachable\<rparr>) fresh)) = 1"
proof -
  have u: "\<not> ready (wait_for_weaviate unreachable 60)"
    by (simp add: unreachable_minute)
  have c: "fst (create_bbc_collection healthy fresh) = Ok ''bbc_collection''"
    by (simp add: create_bbc_collection_returns healthy_def)
  have l: "fst (load_data_to_collection healthy ''bbc_collection'' fresh) = Ok True"
    by (simp add: load_data_to_collection_true healthy_def)
  have m: "fst (load_data_to_collection (healthy\<lparr>dataset := Missing\<rparr>) ''bbc_collection'' fresh) \<noteq> Ok True"
    by (simp add: load_data_to_collection_true)
  have s: "fst (create_bbc_collection (healthy\<lparr>create_fails := True\<rparr>) fresh) \<noteq> Ok ''bbc_collection''"
    by (simp add: create_bbc_collection_returns)
  have f: "\<not> connect_fails healthy"
    by (simp add: healthy_def)
  have o: "last (out (snd (main healthy fresh))) = RunNotebook"
    by (simp add: healthy_main)
  have e0: "exit_code (fst (main healthy fresh)) = 0"
    using main_exit_code [of healthy fresh] healthy_ready f c l by blast
  have e1: "exit_code (fst (main (healthy\<lparr>dataset := Missing\<rparr>) fresh)) = 1"
    using main_exit_code [of "healthy\<lparr>dataset := Missing\<rparr>" fresh] m by blast
  have e2: "exit_code (fst (main (healthy\<lparr>create_fails := True\<rparr>) fresh)) = 1"
    using main_exit_code [of "healthy\<lparr>create_fails := True\<rparr>" fresh] s by blast
  have e3: "exit_code (fst (main (healthy\<lparr>connect_fails := True\<rparr>) fresh)) = 1"
    using main_exit_code [of "healthy\<lparr>connect_fails := True\<rparr>" fresh] by simp
  have e4: "exit_code (fst (main (healthy\<lparr>health := unreachable\<rparr>) fresh)) = 1"
    using main_exit_code [of "healthy\<lparr>health := unreachable\<rparr>" fresh] u by simp
  show ?thesis using o e0 e1 e2 e3 e4 by simp
qed


end
